theory Spec2Isabelle
  imports Complex_Main "HOL-Library.Sublist" "HOL-Library.AList"
begin

section \<open>PGLoader: a shallow embedding of \<^verbatim>\<open>src/PGLoader.py\<close>\<close>

text \<open>
  Python strings are modelled as \<^typ>\<open>string\<close>: lists of characters with code points below
  256 (Latin-1), so the development speaks about locators, member names and paths over
  these characters. Exceptions are values
  of the type \<open>exc\<close>; a function that can raise returns \<open>exc + 'a\<close> with \<open>Inl\<close> for the
  raised exception.
\<close>

subsection \<open>Exceptions\<close>

datatype exc =
    ValueError string            \<comment> \<open>\<^verbatim>\<open>raise ValueError(msg)\<close>\<close>
  | RequestException             \<comment> \<open>\<^verbatim>\<open>requests.exceptions.RequestException\<close> (connect error, non-2xx status, broken stream)\<close>
  | SocketTimeout                \<comment> \<open>\<^verbatim>\<open>socket.timeout\<close>\<close>
  | FolderNotFound string        \<comment> \<open>\<^verbatim>\<open>raise Exception(f"Folder '{folder_path}' not found in repository")\<close>\<close>
  | BadZipFile                   \<comment> \<open>raised by the archive reader\<close>
  | OSError string               \<comment> \<open>raised by a filesystem call; the text names the call\<close>
  | FileExistsError              \<comment> \<open>the \<^verbatim>\<open>OSError\<close> of \<^verbatim>\<open>mkdir\<close> on a name that is taken\<close>
  | OverflowError                \<comment> \<open>a float result out of range, a sleep length too large\<close>
  | OtherException               \<comment> \<open>any other exception of class \<^verbatim>\<open>Exception\<close>\<close>

subsection \<open>String methods\<close>

text \<open>\<^verbatim>\<open>s.startswith(p)\<close>\<close>

fun startswith :: "string \<Rightarrow> string \<Rightarrow> bool" where
  "startswith s [] = True"
| "startswith [] (c # p) = False"
| "startswith (a # s) (c # p) = (a = c \<and> startswith s p)"

text \<open>\<^verbatim>\<open>s.rstrip(cs)\<close>, \<^verbatim>\<open>s.lstrip(cs)\<close> and \<^verbatim>\<open>s.strip(cs)\<close>: \<open>cs\<close> is a set of characters.\<close>

definition rstrip :: "string \<Rightarrow> string \<Rightarrow> string" where
  "rstrip cs s = rev (dropWhile (\<lambda>c. c \<in> set cs) (rev s))"

definition lstrip :: "string \<Rightarrow> string \<Rightarrow> string" where
  "lstrip cs s = dropWhile (\<lambda>c. c \<in> set cs) s"

definition strip :: "string \<Rightarrow> string \<Rightarrow> string" where
  "strip cs s = rstrip cs (lstrip cs s)"

text \<open>
  \<^verbatim>\<open>s.split(sep)\<close> for a one-character separator: the result is never empty, and has one
  more element than \<open>s\<close> has separators.
\<close>

fun str_split :: "char \<Rightarrow> string \<Rightarrow> string list" where
  "str_split sep [] = [[]]"
| "str_split sep (c # s) =
     (if c = sep then [] # str_split sep s
      else (case str_split sep s of
              [] \<Rightarrow> [[c]]
            | w # ws \<Rightarrow> (c # w) # ws))"

text \<open>\<^verbatim>\<open>sep.join(parts)\<close>\<close>

fun str_join :: "string \<Rightarrow> string list \<Rightarrow> string" where
  "str_join sep [] = []"
| "str_join sep [p] = p"
| "str_join sep (p # q # ps) = p @ sep @ str_join sep (q # ps)"

subsection \<open>Reference Parser (\<^verbatim>\<open>parse_github_folder_url\<close>, lines 14--42)\<close>

text \<open>
  The character class \<^verbatim>\<open>\w\<close> of \<^verbatim>\<open>re\<close> on a \<^verbatim>\<open>str\<close> pattern is Unicode-aware: the underscore
  and every character that \<^verbatim>\<open>str.isalnum\<close> accepts. Among the code points below 256 these
  are the ASCII letters and digits, the letters of Latin-1 (all of 192--255 but the
  two operators 215 and 247, the ordinal indicators 170 and 186, the micro sign 181) and
  its numeric characters (superscripts 178, 179, 185 and fractions 188--190).
\<close>

definition word_char :: "char \<Rightarrow> bool" where
  "word_char c \<longleftrightarrow>
     (let n = (of_char c :: nat) in
        (48 \<le> n \<and> n \<le> 57) \<or> (65 \<le> n \<and> n \<le> 90) \<or> n = 95 \<or> (97 \<le> n \<and> n \<le> 122)
        \<or> n = 170 \<or> n = 178 \<or> n = 179 \<or> n = 181 \<or> n = 185 \<or> n = 186
        \<or> (188 \<le> n \<and> n \<le> 190) \<or> (192 \<le> n \<and> n \<le> 214) \<or> (216 \<le> n \<and> n \<le> 246)
        \<or> (248 \<le> n \<and> n \<le> 255))"

definition owner_char :: "char \<Rightarrow> bool" where   \<comment> \<open>\<^verbatim>\<open>[\w-]\<close>\<close>
  "owner_char c \<longleftrightarrow> word_char c \<or> c = CHR ''-''"

definition repo_char :: "char \<Rightarrow> bool" where    \<comment> \<open>\<^verbatim>\<open>[\w.-]\<close>\<close>
  "repo_char c \<longleftrightarrow> word_char c \<or> c = CHR ''.'' \<or> c = CHR ''-''"

text \<open>
  \<^verbatim>\<open>[\w-]+/[\w.-]+\<close> matched at the start of \<open>r\<close>: the greedy owner run must be non-empty
  and end at a slash, and one character of the repository class must follow (the match
  is not anchored at the end, so whatever comes later is not looked at).
\<close>

definition match_owner_repo :: "string \<Rightarrow> bool" where
  "match_owner_repo r =
     (takeWhile owner_char r \<noteq> [] \<and>
      (case dropWhile owner_char r of
         [] \<Rightarrow> False
       | c # r' \<Rightarrow> c = CHR ''/'' \<and> (case r' of [] \<Rightarrow> False | d # _ \<Rightarrow> repo_char d)))"

text \<open>\<^verbatim>\<open>re.match(r"https?://github\.com/[\w-]+/[\w.-]+", url)\<close>\<close>

definition is_github_url :: "string \<Rightarrow> bool" where
  "is_github_url url =
     (if startswith url ''https://github.com/'' then match_owner_repo (drop 19 url)
      else if startswith url ''http://github.com/'' then match_owner_repo (drop 18 url)
      else False)"

text \<open>
  \<^verbatim>\<open>urlparse(url).path\<close> of the standard library, for the arguments the parser gives it:
  strings that matched the pattern above, so the scheme is \<^verbatim>\<open>http\<close> or \<^verbatim>\<open>https\<close> and
  \<^verbatim>\<open>//\<close> follows the first colon. The library removes tabs, carriage returns and line
  feeds, cuts the scheme at the first colon, cuts the host at the first of \<^verbatim>\<open>/ ? #\<close>, the
  fragment at the first \<^verbatim>\<open>#\<close>, the query at the first \<^verbatim>\<open>?\<close>, and the parameters at the
  first \<^verbatim>\<open>;\<close> of the last path segment.
\<close>

definition splitparams :: "string \<Rightarrow> string" where
  "splitparams p =
     (let lastseg = rev (takeWhile (\<lambda>c. c \<noteq> CHR ''/'') (rev p));
          upto_slash = rev (dropWhile (\<lambda>c. c \<noteq> CHR ''/'') (rev p))
      in upto_slash @ takeWhile (\<lambda>c. c \<noteq> CHR '';'') lastseg)"

definition urlparse_path :: "string \<Rightarrow> string" where
  "urlparse_path url =
     (let u = filter (\<lambda>c. c \<notin> {CHR 0x09, CHR 0x0D, CHR 0x0A}) url;
          after_scheme = drop 1 (dropWhile (\<lambda>c. c \<noteq> CHR '':'') u);
          after_host = (if take 2 after_scheme = ''//''
                        then dropWhile (\<lambda>c. c \<notin> set ''/?#'') (drop 2 after_scheme)
                        else after_scheme);
          no_fragment = takeWhile (\<lambda>c. c \<noteq> CHR ''#'') after_host;
          no_query = takeWhile (\<lambda>c. c \<noteq> CHR ''?'') no_fragment
      in splitparams no_query)"

text \<open>\<^verbatim>\<open>path_parts = parsed_url.path.strip("/").split("/")\<close>\<close>

definition path_parts :: "string \<Rightarrow> string list" where
  "path_parts url = str_split CHR ''/'' (strip ''/'' (urlparse_path url))"

text \<open>The result is the tuple \<^verbatim>\<open>(owner, repo, branch, folder_path)\<close>.\<close>

definition parse_github_folder_url :: "string \<Rightarrow> exc + (string \<times> string \<times> string \<times> string)" where
  "parse_github_folder_url url0 =
     (let url = rstrip ''/'' url0 in
      if \<not> is_github_url url then Inl (ValueError ''Invalid GitHub URL'')
      else
        let parts = path_parts url in
        if length parts < 2 then Inl (ValueError ''URL does not point to a GitHub repository'')
        else
          let owner = parts ! 0;
              repo = parts ! 1;
              branch0 = ''main'';
              folder_path0 = '''';
              (branch, folder_path) =
                (if length parts > 2 \<and> parts ! 2 \<in> set [''tree'', ''blob'']
                 then (if length parts > 3 then parts ! 3 else branch0,
                       if length parts > 4 then str_join ''/'' (drop 4 parts) else '''')
                 else (branch0, folder_path0))
          in Inr (owner, repo, branch, folder_path))"

subsection \<open>Archive Filter (\<^verbatim>\<open>download_github_folder\<close>, lines 189--200)\<close>

text \<open>
  \<^verbatim>\<open>repo_dir_prefix = f"{repo}-{branch}/"\<close> and
  \<^verbatim>\<open>folder_prefix = repo_dir_prefix + folder_path + "/" if folder_path else repo_dir_prefix\<close>
\<close>

definition repo_dir_prefix :: "string \<Rightarrow> string \<Rightarrow> string" where
  "repo_dir_prefix repo branch = repo @ ''-'' @ branch @ ''/''"

definition folder_prefix :: "string \<Rightarrow> string \<Rightarrow> string \<Rightarrow> string" where
  "folder_prefix repo branch folder_path =
     (if folder_path \<noteq> [] then repo_dir_prefix repo branch @ folder_path @ ''/''
      else repo_dir_prefix repo branch)"

text \<open>
  The list comprehension
  \<^verbatim>\<open>[file for file in zip_ref.namelist() if file.startswith(folder_prefix) and file != folder_prefix]\<close>
  as the loop it abbreviates.
\<close>

fun target_files :: "string \<Rightarrow> string list \<Rightarrow> string list" where
  "target_files pfx [] = []"
| "target_files pfx (file # names) =
     (if startswith file pfx \<and> file \<noteq> pfx then file # target_files pfx names
      else target_files pfx names)"

text \<open>
  The filter stage as a whole: the selection, or the exception of line 200 when the
  selection is empty (\<^verbatim>\<open>if not target_files: raise Exception(...)\<close>).
\<close>

definition archive_filter :: "string \<Rightarrow> string \<Rightarrow> string \<Rightarrow> string list \<Rightarrow> exc + string list" where
  "archive_filter repo branch folder_path namelist =
     (let sel = target_files (folder_prefix repo branch folder_path) namelist
      in if sel = [] then Inl (FolderNotFound folder_path) else Inr sel)"

subsection \<open>Plain locators\<close>

definition plain_segment :: "string \<Rightarrow> bool" where
  "plain_segment s \<longleftrightarrow> list_all (\<lambda>c. c \<notin> set ''/?#;'' \<and> c \<notin> {CHR 0x09, CHR 0x0D, CHR 0x0A}) s"

definition plain_locator :: "string \<Rightarrow> string \<Rightarrow> string \<Rightarrow> string list \<Rightarrow> string" where
  "plain_locator scheme owner repo rest =
     scheme @ ''://github.com/'' @ str_join ''/'' (owner # repo # rest)"

definition well_formed :: "string \<Rightarrow> string \<Rightarrow> string \<Rightarrow> string list \<Rightarrow> bool" where
  "well_formed scheme owner repo rest \<longleftrightarrow>
     (scheme = ''http'' \<or> scheme = ''https'') \<and>
     owner \<noteq> [] \<and> list_all owner_char owner \<and>
     repo \<noteq> [] \<and> repo_char (hd repo) \<and>
     list_all plain_segment (repo # rest) \<and> last (repo # rest) \<noteq> []"

subsection \<open>Resilient Fetcher (\<^verbatim>\<open>download_with_progress\<close>, lines 44--86)\<close>

text \<open>
  The network is the environment of the program. One \<^verbatim>\<open>requests.get\<close> with the reading
  of its body is one attempt, and an attempt has one of two outcomes: the chunks that
  \<^verbatim>\<open>iter_content\<close> delivers, or the exception that ends the \<^verbatim>\<open>try\<close> block (raised by
  \<^verbatim>\<open>get\<close>, by \<^verbatim>\<open>raise_for_status\<close>, by the conversion of the length header or while
  the body is read).
\<close>

datatype outcome = Payload "string list" | Fails exc

text \<open>The exceptions that the clause \<^verbatim>\<open>except (RequestException, socket.timeout)\<close> catches.\<close>

definition network_class :: "exc \<Rightarrow> bool" where
  "network_class e \<longleftrightarrow> e = RequestException \<or> e = SocketTimeout"

text \<open>
  The state of the network side: \<open>responses k url\<close> is the outcome of the \<open>k\<close>-th attempt
  of the run when it asks for \<open>url\<close>; \<open>requests\<close> logs the URL of every attempt made so
  far and \<open>sleeps\<close> every wait that \<^verbatim>\<open>time.sleep\<close> has slept, both oldest first. The last
  two fields are the platform: \<open>libm_pow x k\<close> is what the float power \<^verbatim>\<open>x ** k\<close> gives where
  the exact power is not a double (a rounded value, or \<^verbatim>\<open>OverflowError\<close>), and
  \<open>sleep_overflow t\<close> says whether a long sleep of \<open>t\<close> seconds is refused.
\<close>

record net =
  responses :: "nat \<Rightarrow> string \<Rightarrow> outcome"
  requests :: "string list"
  sleeps :: "rat list"
  libm_pow :: "rat \<Rightarrow> nat \<Rightarrow> exc + rat"
  sleep_overflow :: "rat \<Rightarrow> bool"

text \<open>
  Floats. A finite float is the rational number it denotes. \<open>exact_double r\<close> is a
  sufficient condition for \<open>r\<close> to be a double: in lowest terms its numerator is below
  \<open>2 ^ 53\<close> in absolute value and its denominator is a power of two up to \<open>2 ^ 1074\<close>. The
  float power \<^verbatim>\<open>x ** k\<close> is the exact power where that is such a double, and what the
  platform computes otherwise.
\<close>

definition exact_double :: "rat \<Rightarrow> bool" where
  "exact_double r \<longleftrightarrow> (case quotient_of r of (p, q) \<Rightarrow> \<bar>p\<bar> < 2 ^ 53 \<and> q dvd 2 ^ 1074)"

definition float_pow :: "(rat \<Rightarrow> nat \<Rightarrow> exc + rat) \<Rightarrow> rat \<Rightarrow> nat \<Rightarrow> exc + rat" where
  "float_pow libm x k = (if exact_double (x ^ k) then Inr (x ^ k) else libm x k)"

text \<open>
  \<^verbatim>\<open>time.sleep(wait)\<close> raises \<^verbatim>\<open>ValueError\<close> for a negative length; a length above
  4294967 seconds (the shortest limit among the platforms, \<open>2 ^ 32\<close> milliseconds) raises
  \<^verbatim>\<open>OverflowError\<close> where the platform refuses it. The result is the exception, or \<open>None\<close>
  when the sleep takes place.
\<close>

definition time_sleep :: "(rat \<Rightarrow> bool) \<Rightarrow> rat \<Rightarrow> exc option" where
  "time_sleep overflow wait =
     (if wait < 0 then Some (ValueError ''sleep length must be non-negative'')
      else if 4294967 < wait \<and> overflow wait then Some OverflowError
      else None)"

text \<open>\<^verbatim>\<open>io.BytesIO\<close>: a buffer and a position. Writing past the end pads with zero bytes.\<close>

record bytesio =
  buf :: string
  pos :: nat

definition bytesio_new :: bytesio where
  "bytesio_new = \<lparr>buf = [], pos = 0\<rparr>"

definition bytesio_write :: "bytesio \<Rightarrow> string \<Rightarrow> bytesio" where
  "bytesio_write b chunk =
     \<lparr>buf = take (pos b) (buf b) @ replicate (pos b - length (buf b)) (CHR 0x00) @ chunk
              @ drop (pos b + length chunk) (buf b),
      pos = pos b + length chunk\<rparr>"

definition bytesio_seek :: "bytesio \<Rightarrow> nat \<Rightarrow> bytesio" where
  "bytesio_seek b n = b\<lparr>pos := n\<rparr>"

text \<open>
  Lines 65--75: \<^verbatim>\<open>for chunk in response.iter_content(...): if chunk: content.write(chunk)\<close>,
  then \<^verbatim>\<open>content.seek(0)\<close>.
\<close>

fun write_chunks :: "bytesio \<Rightarrow> string list \<Rightarrow> bytesio" where
  "write_chunks content [] = content"
| "write_chunks content (chunk # chunks) =
     (if chunk \<noteq> [] then write_chunks (bytesio_write content chunk) chunks
      else write_chunks content chunks)"

definition read_body :: "string list \<Rightarrow> bytesio" where
  "read_body chunks = bytesio_seek (write_chunks bytesio_new chunks) 0"

text \<open>
  The \<^verbatim>\<open>while current_retry <= retries\<close> loop. The result is \<open>Inl e\<close> when \<open>e\<close> is raised,
  \<open>Inr (Some content)\<close> for \<^verbatim>\<open>return content\<close> and \<open>Inr None\<close> when the loop ends without
  an attempt (a negative \<open>retries\<close>) and the function returns \<^verbatim>\<open>None\<close>. In the handler,
  \<^verbatim>\<open>backoff_factor ** current_retry\<close> and \<^verbatim>\<open>time.sleep(wait_time)\<close> can raise themselves, and
  what they raise leaves the function. The exponent is at least 1 where the power is
  computed, the counter starting at 0; \<open>backoff_factor\<close> is a finite float.
\<close>

function retry_loop ::
  "string \<Rightarrow> int \<Rightarrow> rat \<Rightarrow> int \<Rightarrow> 'a net_scheme \<Rightarrow> (exc + bytesio option) \<times> 'a net_scheme" where
  "retry_loop url retries backoff_factor current_retry w =
     (if current_retry \<le> retries then
        (let w1 = w\<lparr>requests := requests w @ [url]\<rparr> in
         case responses w (length (requests w)) url of
           Payload chunks \<Rightarrow> (Inr (Some (read_body chunks)), w1)
         | Fails e \<Rightarrow>
             if network_class e then
               (let current_retry' = current_retry + 1 in
                if current_retry' \<le> retries then
                  (case float_pow (libm_pow w) backoff_factor (nat current_retry') of
                     Inl e' \<Rightarrow> (Inl e', w1)
                   | Inr wait_time \<Rightarrow>
                       (case time_sleep (sleep_overflow w) wait_time of
                          Some e' \<Rightarrow> (Inl e', w1)
                        | None \<Rightarrow>
                            retry_loop url retries backoff_factor current_retry'
                              (w1\<lparr>sleeps := sleeps w1 @ [wait_time]\<rparr>)))
                else (Inl e, w1))
             else (Inl e, w1))
      else (Inr None, w))"
  by pat_completeness auto
termination
  by (relation "measure (\<lambda>(url, retries, backoff_factor, current_retry, w). nat (retries + 1 - current_retry))") auto

declare retry_loop.simps [simp del]

definition download_with_progress ::
  "string \<Rightarrow> int \<Rightarrow> rat \<Rightarrow> 'a net_scheme \<Rightarrow> (exc + bytesio option) \<times> 'a net_scheme" where
  "download_with_progress url retries backoff_factor w = retry_loop url retries backoff_factor 0 w"

subsection \<open>Paths (\<^verbatim>\<open>sanitize_path\<close>, lines 88--92, and \<^verbatim>\<open>os.path\<close>)\<close>

text \<open>\<^verbatim>\<open>return path.rstrip('/\\')\<close>: trailing slashes and backslashes are removed.\<close>

definition sanitize_path :: "string \<Rightarrow> string" where
  "sanitize_path path = rstrip [CHR ''/'', CHR 0x5C] path"

text \<open>
  \<^verbatim>\<open>os.path\<close> is modelled in its POSIX flavour, \<^verbatim>\<open>posixpath\<close>: the slash is the only
  separator and there are no drives, so every statement made with these functions is a
  statement about a run on a POSIX system. \<^verbatim>\<open>os.path.join(a, b)\<close> restarts at a \<open>b\<close> that
  begins with a slash and otherwise puts one slash between the two parts unless \<open>a\<close> is
  empty or ends with one; \<^verbatim>\<open>os.path.basename\<close> is the text after the last slash and
  \<^verbatim>\<open>os.path.dirname\<close> the text before it, without its trailing slashes unless it consists
  of slashes only.
\<close>

definition path_join :: "string \<Rightarrow> string \<Rightarrow> string" where
  "path_join a b =
     (if startswith b ''/'' then b
      else if a = [] \<or> last a = CHR ''/'' then a @ b
      else a @ ''/'' @ b)"

definition basename :: "string \<Rightarrow> string" where
  "basename p = rev (takeWhile (\<lambda>c. c \<noteq> CHR ''/'') (rev p))"

definition dirname :: "string \<Rightarrow> string" where
  "dirname p =
     (let head = rev (dropWhile (\<lambda>c. c \<noteq> CHR ''/'') (rev p))
      in if head \<noteq> [] \<and> head \<noteq> replicate (length head) (CHR ''/'') then rstrip ''/'' head
         else head)"

text \<open>
  A location in the filesystem is the list of the names on the way from the root.
  \<open>resolve\<close> is \<^verbatim>\<open>os.path.abspath\<close>, which works on the text of a path: from the root when
  the string starts with a slash and from the working directory otherwise; an empty
  component and \<^verbatim>\<open>.\<close> stay where they are, \<^verbatim>\<open>..\<close> cancels the component before it (the
  root is its own parent) and a name is appended. (The kernel's own resolution, which
  looks every component up in the tree, is \<open>walk\<close> below.)
\<close>

type_synonym location = "string list"

fun norm_path :: "location \<Rightarrow> string list \<Rightarrow> location" where
  "norm_path cur [] = cur"
| "norm_path cur (s # ss) =
     (if s = [] \<or> s = ''.'' then norm_path cur ss
      else if s = ''..'' then norm_path (butlast cur) ss
      else norm_path (cur @ [s]) ss)"

definition resolve :: "location \<Rightarrow> string \<Rightarrow> location" where
  "resolve cwd p = norm_path (if startswith p ''/'' then [] else cwd) (str_split CHR ''/'' p)"

text \<open>
  A path lies inside a directory, on the text of the two, when its absolute normal form
  is that of the directory or below it.
\<close>

definition inside :: "location \<Rightarrow> string \<Rightarrow> string \<Rightarrow> bool" where
  "inside cwd dir p \<longleftrightarrow> prefix (resolve cwd dir) (resolve cwd p)"

text \<open>
  Lines 107--115 of \<^verbatim>\<open>extract_to_temp_and_move\<close>: the path a selected member is written
  to, \<open>None\<close> for a member that is skipped because its relative path is empty (\<open>pfx\<close> is
  the parameter \<^verbatim>\<open>folder_prefix\<close>).
\<close>

definition target_file_path :: "string \<Rightarrow> string \<Rightarrow> string \<Rightarrow> string option" where
  "target_file_path temp_dir pfx file =
     (let rel_path = drop (length pfx) file
      in if rel_path = [] then None
         else Some (path_join temp_dir (sanitize_path rel_path)))"


text \<open>The names a directory entry can have.\<close>

definition valid_name :: "string \<Rightarrow> bool" where
  "valid_name n \<longleftrightarrow> n \<noteq> [] \<and> CHR ''/'' \<notin> set n \<and> n \<noteq> ''.'' \<and> n \<noteq> ''..''"

subsection \<open>The filesystem\<close>

text \<open>
  A filesystem is a tree: a file with its bytes, or a directory with its entries in the
  order \<^verbatim>\<open>os.listdir\<close> reports them. The entry found under a name is the first one of that
  name. There are no symbolic links and one device.
\<close>

datatype node = File string | Dir "(string \<times> node) list"

fun node_at :: "node \<Rightarrow> location \<Rightarrow> node option" where
  "node_at t [] = Some t"
| "node_at (File d) (s # p) = None"
| "node_at (Dir es) (s # p) = (case map_of es s of None \<Rightarrow> None | Some c \<Rightarrow> node_at c p)"

definition is_dir :: "node \<Rightarrow> location \<Rightarrow> bool" where
  "is_dir t p = (case node_at t p of Some (Dir es) \<Rightarrow> True | _ \<Rightarrow> False)"

text \<open>
  \<open>put_node p v t\<close> is \<open>t\<close> with \<open>v\<close> at the location \<open>p\<close>, in place of what was there or as a
  new last entry of the parent; \<open>rm_node p t\<close> is \<open>t\<close> without the node at \<open>p\<close>. Both leave
  \<open>t\<close> as it is when the parent of \<open>p\<close> is not a directory of \<open>t\<close>.
\<close>

fun put_node :: "location \<Rightarrow> node \<Rightarrow> node \<Rightarrow> node" where
  "put_node [] v t = v"
| "put_node (s # p) v (File d) = File d"
| "put_node (s # p) v (Dir es) =
     (if p = [] then Dir (AList.update s v es)
      else (case map_of es s of
              None \<Rightarrow> Dir es
            | Some c \<Rightarrow> Dir (AList.update s (put_node p v c) es)))"

fun rm_node :: "location \<Rightarrow> node \<Rightarrow> node" where
  "rm_node [] t = t"
| "rm_node (s # p) (File d) = File d"
| "rm_node (s # p) (Dir es) =
     (if p = [] then Dir (AList.delete s es)
      else (case map_of es s of
              None \<Rightarrow> Dir es
            | Some c \<Rightarrow> Dir (AList.update s (rm_node p c) es)))"

text \<open>
  The kernel walks a path component by component, from the location \<open>cur\<close>: every
  component is looked up in a directory that exists (otherwise the walk fails, \<open>None\<close>);
  an empty component and \<^verbatim>\<open>.\<close> stay, \<^verbatim>\<open>..\<close> goes to the parent (the root is its own
  parent), a name goes to the child of that name, which need not exist when the name is
  the last component.
\<close>

fun walk :: "node \<Rightarrow> location \<Rightarrow> string list \<Rightarrow> location option" where
  "walk t cur [] = Some cur"
| "walk t cur (s # ss) =
     (if \<not> is_dir t cur then None
      else if s = [] \<or> s = ''.'' then walk t cur ss
      else if s = ''..'' then walk t (butlast cur) ss
      else walk t (cur @ [s]) ss)"

text \<open>
  \<open>rename_node src dst t\<close> is \<^verbatim>\<open>os.rename\<close> on two locations: the node at \<open>src\<close> goes to
  \<open>dst\<close>. It fails (\<open>None\<close>) when there is nothing at \<open>src\<close>, when \<open>dst\<close> lies inside \<open>src\<close>,
  when the parent of \<open>dst\<close> is no directory, and when \<open>dst\<close> is taken by something the
  source may not replace (a file replaces a file, a directory an empty directory).
\<close>

definition rename_node :: "location \<Rightarrow> location \<Rightarrow> node \<Rightarrow> node option" where
  "rename_node src dst t =
     (case node_at t src of
        None \<Rightarrow> None
      | Some n \<Rightarrow>
          if src = [] \<or> dst = [] then None
          else if src = dst then Some t
          else if prefix src dst then None
          else (case node_at t dst of
                  None \<Rightarrow>
                    if is_dir t (butlast dst) then Some (put_node dst n (rm_node src t)) else None
                | Some (File d) \<Rightarrow>
                    (case n of File d' \<Rightarrow> Some (put_node dst n (rm_node src t)) | Dir es' \<Rightarrow> None)
                | Some (Dir es) \<Rightarrow>
                    (case n of
                       File d' \<Rightarrow> None
                     | Dir es' \<Rightarrow> if es = [] then Some (put_node dst n (rm_node src t)) else None)))"

subsection \<open>The world of one run\<close>

text \<open>
  Besides what the tree decides, a call into the filesystem can fail for reasons of the
  environment (permissions, a full disk, a file in use). The environment is the
  predicate \<open>faults\<close>: a call it marks raises \<^verbatim>\<open>OSError\<close> and changes nothing
  (\<^verbatim>\<open>shutil.rmtree\<close> with \<^verbatim>\<open>ignore_errors=True\<close> then returns without having removed
  anything).
\<close>

datatype fs_call =
    Makedirs string | OpenWrite string | Listdir string
  | Rmtree string | Unlink string | Move string string

text \<open>The warnings the program prints: a member that is not extracted, an item that is not moved.\<close>

datatype event = ExtractWarning string exc | MoveWarning string exc

text \<open>
  The world: the network side, the filesystem \<open>fs\<close> with the working directory \<open>cwd\<close>, the
  environment's \<open>faults\<close>, the value \<open>now\<close> of \<^verbatim>\<open>int(time.time())\<close>, and the warnings printed
  so far. A call that can raise returns the exception, or \<open>None\<close>, together with the world
  it leaves.
\<close>

record world = net +
  fs :: node
  cwd :: location
  faults :: "fs_call \<Rightarrow> bool"
  now :: int
  stdout :: "event list"

definition warn :: "world \<Rightarrow> event \<Rightarrow> world" where
  "warn w ev = w\<lparr>stdout := stdout w @ [ev]\<rparr>"

text \<open>
  The location a path string names: walked from the root when the string starts with a
  slash and from the working directory otherwise. The empty string names nothing.
\<close>

definition locate :: "world \<Rightarrow> string \<Rightarrow> location option" where
  "locate w p =
     (if p = [] then None
      else walk (fs w) (if startswith p ''/'' then [] else cwd w) (str_split CHR ''/'' p))"

text \<open>\<^verbatim>\<open>os.path.exists\<close> and \<^verbatim>\<open>os.path.isdir\<close> never raise.\<close>

definition os_path_exists :: "world \<Rightarrow> string \<Rightarrow> bool" where
  "os_path_exists w p \<longleftrightarrow> (case locate w p of None \<Rightarrow> False | Some l \<Rightarrow> node_at (fs w) l \<noteq> None)"

definition os_path_isdir :: "world \<Rightarrow> string \<Rightarrow> bool" where
  "os_path_isdir w p \<longleftrightarrow> (case locate w p of None \<Rightarrow> False | Some l \<Rightarrow> is_dir (fs w) l)"

text \<open>\<^verbatim>\<open>os.mkdir(name)\<close>: trailing slashes do not count; the name must be free.\<close>

definition os_mkdir :: "world \<Rightarrow> string \<Rightarrow> exc option \<times> world" where
  "os_mkdir w name =
     (case locate w (if rstrip ''/'' name = [] then name else rstrip ''/'' name) of
        None \<Rightarrow> (Some (OSError ''mkdir: no such file or directory''), w)
      | Some l \<Rightarrow>
          if node_at (fs w) l \<noteq> None then (Some FileExistsError, w)
          else (None, w\<lparr>fs := put_node l (Dir []) (fs w)\<rparr>))"

text \<open>
  \<^verbatim>\<open>os.makedirs(name, exist_ok=...)\<close> as the library writes it: \<^verbatim>\<open>os.path.split\<close> (a second
  time when the name ends with a slash), the recursive call for a head that does not
  exist, whose \<^verbatim>\<open>FileExistsError\<close> is passed over, the early return for a tail \<^verbatim>\<open>.\<close>, and the
  \<^verbatim>\<open>mkdir\<close> whose error is dropped when \<open>exist_ok\<close> holds and the name is a directory.
\<close>

definition path_split :: "string \<Rightarrow> string \<times> string" where
  "path_split p = (dirname p, basename p)"

definition makedirs_split :: "string \<Rightarrow> string \<times> string" where
  "makedirs_split name =
     (if snd (path_split name) = [] then path_split (fst (path_split name)) else path_split name)"

definition mkdir_last :: "bool \<Rightarrow> world \<Rightarrow> string \<Rightarrow> exc option \<times> world" where
  "mkdir_last exist_ok w name =
     (case os_mkdir w name of
        (Some e, w') \<Rightarrow> if \<not> exist_ok \<or> \<not> os_path_isdir w' name then (Some e, w') else (None, w')
      | (None, w') \<Rightarrow> (None, w'))"

function makedirs :: "bool \<Rightarrow> world \<Rightarrow> string \<Rightarrow> exc option \<times> world" where
  "makedirs exist_ok w name =
     (if fst (makedirs_split name) \<noteq> [] \<and> snd (makedirs_split name) \<noteq> []
         \<and> \<not> os_path_exists w (fst (makedirs_split name))
      then
        (case makedirs exist_ok w (fst (makedirs_split name)) of
           (Some e, w') \<Rightarrow>
             if e = FileExistsError
             then (if snd (makedirs_split name) = ''.'' then (None, w')
                   else mkdir_last exist_ok w' name)
             else (Some e, w')
         | (None, w') \<Rightarrow>
             if snd (makedirs_split name) = ''.'' then (None, w')
             else mkdir_last exist_ok w' name)
      else mkdir_last exist_ok w name)"
  by pat_completeness auto
termination
proof (relation "measure (\<lambda>(exist_ok, w, name). length name)")
  show "wf (measure (\<lambda>(exist_ok, w, name). length name))" by simp
next
  fix exist_ok :: bool and w :: world and name :: string
  assume a: "fst (makedirs_split name) \<noteq> [] \<and> snd (makedirs_split name) \<noteq> []
         \<and> \<not> os_path_exists w (fst (makedirs_split name))"
  have rs: "length (rstrip ''/'' h) \<le> length h" for h
    using length_dropWhile_le[of "\<lambda>c. c \<in> set ''/''" "rev h"] by (simp add: rstrip_def)
  have le: "length (dirname p) \<le> length p" for p
  proof -
    define h where "h = rev (dropWhile (\<lambda>c. c \<noteq> CHR ''/'') (rev p))"
    have hl: "length h \<le> length p"
      using length_dropWhile_le[of "\<lambda>c. c \<noteq> CHR ''/''" "rev p"] by (simp add: h_def)
    have d: "dirname p = rstrip ''/'' h \<or> dirname p = h"
      by (simp add: dirname_def Let_def h_def)
    show ?thesis
    proof (cases "dirname p = h")
      case True
      then show ?thesis using hl by simp
    next
      case False
      with d have "dirname p = rstrip ''/'' h" by simp
      then show ?thesis using hl rs[of h] by simp
    qed
  qed
  have lt: "length (dirname p) < length p" if b: "basename p \<noteq> []" for p
  proof -
    define h where "h = rev (dropWhile (\<lambda>c. c \<noteq> CHR ''/'') (rev p))"
    define k where "k = takeWhile (\<lambda>c. c \<noteq> CHR ''/'') (rev p)"
    have "k @ rev h = rev p" by (simp add: h_def k_def)
    then have "length (k @ rev h) = length (rev p)" by (rule arg_cong)
    then have "length k + length h = length p" by simp
    moreover have "k \<noteq> []" using b by (simp add: basename_def k_def)
    ultimately have hl: "length h < length p" by (cases k) simp_all
    have d: "dirname p = rstrip ''/'' h \<or> dirname p = h"
      by (simp add: dirname_def Let_def h_def)
    show ?thesis
    proof (cases "dirname p = h")
      case True
      then show ?thesis using hl by simp
    next
      case False
      with d have "dirname p = rstrip ''/'' h" by simp
      then show ?thesis using hl rs[of h] by simp
    qed
  qed
  have "length (fst (makedirs_split name)) < length name"
  proof (cases "snd (path_split name) = []")
    case True
    then have s: "makedirs_split name = path_split (dirname name)"
      by (simp add: makedirs_split_def path_split_def)
    with a have "basename (dirname name) \<noteq> []" by (simp add: path_split_def)
    from lt[OF this] le[of name] show ?thesis by (simp add: s path_split_def)
  next
    case False
    then have s: "makedirs_split name = path_split name"
      by (simp add: makedirs_split_def)
    with a have "basename name \<noteq> []" by (simp add: path_split_def)
    from lt[OF this] show ?thesis by (simp add: s path_split_def)
  qed
  then show "((exist_ok, w, fst (makedirs_split name)), (exist_ok, w, name))
        \<in> measure (\<lambda>(exist_ok, w, name). length name)"
    by simp
qed

declare makedirs.simps [simp del]

text \<open>\<^verbatim>\<open>os.makedirs(name, exist_ok=True)\<close> as the program calls it.\<close>

definition os_makedirs :: "world \<Rightarrow> string \<Rightarrow> exc option \<times> world" where
  "os_makedirs w name =
     (if faults w (Makedirs name) then (Some (OSError ''makedirs''), w)
      else makedirs True w name)"

text \<open>
  \<^verbatim>\<open>open(p, "wb")\<close> creates the file or truncates it; \<open>file_write\<close> is the \<^verbatim>\<open>write\<close> on the
  handle that follows.
\<close>

definition open_wb :: "world \<Rightarrow> string \<Rightarrow> exc option \<times> world" where
  "open_wb w p =
     (if faults w (OpenWrite p) then (Some (OSError ''open''), w)
      else (case locate w p of
              None \<Rightarrow> (Some (OSError ''open: no such file or directory''), w)
            | Some l \<Rightarrow>
                if is_dir (fs w) l then (Some (OSError ''open: is a directory''), w)
                else (None, w\<lparr>fs := put_node l (File []) (fs w)\<rparr>)))"

definition file_write :: "world \<Rightarrow> string \<Rightarrow> string \<Rightarrow> world" where
  "file_write w p data =
     (case locate w p of
        None \<Rightarrow> w
      | Some l \<Rightarrow> w\<lparr>fs := put_node l (File data) (fs w)\<rparr>)"

text \<open>\<^verbatim>\<open>os.listdir(p)\<close>\<close>

definition os_listdir :: "world \<Rightarrow> string \<Rightarrow> exc + string list" where
  "os_listdir w p =
     (if faults w (Listdir p) then Inl (OSError ''listdir'')
      else (case locate w p of
              None \<Rightarrow> Inl (OSError ''listdir: no such file or directory'')
            | Some l \<Rightarrow>
                (case node_at (fs w) l of
                   Some (Dir es) \<Rightarrow> Inr (map fst (AList.clearjunk es))
                 | _ \<Rightarrow> Inl (OSError ''listdir: not a directory''))))"

text \<open>
  \<^verbatim>\<open>shutil.rmtree(p, ignore_errors=True)\<close>: removes the directory at \<open>p\<close> with all it
  contains; on anything else, and on a fault, nothing happens and nothing is raised. (The
  program calls it with paths that end in a name.)
\<close>

definition shutil_rmtree_ignore_errors :: "world \<Rightarrow> string \<Rightarrow> world" where
  "shutil_rmtree_ignore_errors w p =
     (if faults w (Rmtree p) then w
      else (case locate w p of
              None \<Rightarrow> w
            | Some l \<Rightarrow> if l \<noteq> [] \<and> is_dir (fs w) l then w\<lparr>fs := rm_node l (fs w)\<rparr> else w))"

text \<open>\<^verbatim>\<open>os.unlink(p)\<close> removes a file.\<close>

definition os_unlink :: "world \<Rightarrow> string \<Rightarrow> exc option \<times> world" where
  "os_unlink w p =
     (if faults w (Unlink p) then (Some (OSError ''unlink''), w)
      else (case locate w p of
              None \<Rightarrow> (Some (OSError ''unlink: no such file or directory''), w)
            | Some l \<Rightarrow>
                (case node_at (fs w) l of
                   Some (File d) \<Rightarrow> (None, w\<lparr>fs := rm_node l (fs w)\<rparr>)
                 | _ \<Rightarrow> (Some (OSError ''unlink: not a file''), w))))"

text \<open>\<^verbatim>\<open>os.rename(src, dst)\<close>\<close>

definition os_rename :: "world \<Rightarrow> string \<Rightarrow> string \<Rightarrow> exc option \<times> world" where
  "os_rename w src dst =
     (case (locate w src, locate w dst) of
        (Some s, Some d) \<Rightarrow>
          (case rename_node s d (fs w) of
             None \<Rightarrow> (Some (OSError ''rename''), w)
           | Some t \<Rightarrow> (None, w\<lparr>fs := t\<rparr>))
      | _ \<Rightarrow> (Some (OSError ''rename: no such file or directory''), w))"

text \<open>
  \<^verbatim>\<open>shutil.move(src, dst)\<close>: into \<open>dst\<close> when \<open>dst\<close> is an existing directory (an error if the
  name is taken there), onto \<open>dst\<close> otherwise, by \<^verbatim>\<open>os.rename\<close>. When the rename fails and
  the source is a directory that does not contain the destination, the library copies
  the tree (\<^verbatim>\<open>copytree\<close> begins with \<^verbatim>\<open>os.makedirs(real_dst)\<close>) and removes the source; for
  any other source the copy fails where the rename failed.
\<close>

definition copytree_rmtree :: "world \<Rightarrow> string \<Rightarrow> string \<Rightarrow> exc option \<times> world" where
  "copytree_rmtree w src real_dst =
     (case makedirs False w real_dst of
        (Some e, w1) \<Rightarrow> (Some e, w1)
      | (None, w1) \<Rightarrow>
          (case (locate w1 src, locate w1 real_dst) of
             (Some s, Some d) \<Rightarrow>
               (case node_at (fs w1) s of
                  Some n \<Rightarrow> (None, w1\<lparr>fs := rm_node s (put_node d n (fs w1))\<rparr>)
                | None \<Rightarrow> (Some (OSError ''copytree''), w1))
           | _ \<Rightarrow> (Some (OSError ''copytree''), w1)))"

definition shutil_move :: "world \<Rightarrow> string \<Rightarrow> string \<Rightarrow> exc option \<times> world" where
  "shutil_move w src dst =
     (if faults w (Move src dst) then (Some (OSError ''move''), w)
      else if os_path_isdir w dst \<and> locate w src = locate w dst then (None, w)
      else
        let real_dst = (if os_path_isdir w dst then path_join dst (basename (rstrip ''/'' src)) else dst)
        in
          if os_path_isdir w dst \<and> os_path_exists w real_dst
            then (Some (OSError ''move: destination path already exists''), w)
          else (case os_rename w src real_dst of
                  (None, w') \<Rightarrow> (None, w')
                | (Some e, w') \<Rightarrow>
                    if os_path_isdir w src then
                      (if prefix (resolve (cwd w) src) (resolve (cwd w) dst)
                       then (Some (OSError ''move: cannot move a directory into itself''), w)
                       else copytree_rmtree w src real_dst)
                    else (Some e, w)))"

subsection \<open>The archive\<close>

text \<open>
  An opened archive is the list of its members in the order of \<^verbatim>\<open>namelist()\<close>, each with
  what reading it gives: its bytes, a failure of \<^verbatim>\<open>zip_ref.open\<close> (an encrypted member, an
  unsupported compression) or a failure of \<^verbatim>\<open>read\<close> (a wrong checksum). When a name occurs
  twice, \<^verbatim>\<open>zip_ref.open(name)\<close> opens the later member.
\<close>

datatype member_data = Stored string | Unreadable | Corrupt

type_synonym archive = "(string \<times> member_data) list"

definition namelist :: "archive \<Rightarrow> string list" where
  "namelist zip_ref = map fst zip_ref"

definition zip_member :: "archive \<Rightarrow> string \<Rightarrow> member_data option" where
  "zip_member zip_ref name = map_of (rev zip_ref) name"

subsection \<open>Staged Materializer (\<^verbatim>\<open>extract_to_temp_and_move\<close>, lines 94--157)\<close>

text \<open>\<^verbatim>\<open>str(n)\<close> for an integer, needed for the name of the staging directory.\<close>

fun str_nat :: "nat \<Rightarrow> string" where
  "str_nat n =
     (if n < 10 then [''0123456789'' ! n]
      else str_nat (n div 10) @ [''0123456789'' ! (n mod 10)])"

declare str_nat.simps [simp del]

definition str_int :: "int \<Rightarrow> string" where
  "str_int i = (if i < 0 then ''-'' @ str_nat (nat (- i)) else str_nat (nat i))"

text \<open>
  Line 96:
  \<^verbatim>\<open>temp_dir = os.path.join(os.path.dirname(output_dir), f"temp_extract_{int(time.time())}")\<close>
\<close>

definition staging_dir :: "world \<Rightarrow> string \<Rightarrow> string" where
  "staging_dir w output_dir = path_join (dirname output_dir) (''temp_extract_'' @ str_int (now w))"

text \<open>
  Lines 105--123, the body of the extraction loop with its \<^verbatim>\<open>try\<close>: every exception ends
  in the warning and the next member. The target file exists, empty, from the moment
  \<^verbatim>\<open>open(target_file_path, "wb")\<close> succeeds, also when the read that follows fails.
\<close>

definition extract_member :: "archive \<Rightarrow> string \<Rightarrow> string \<Rightarrow> world \<Rightarrow> string \<Rightarrow> world" where
  "extract_member zip_ref temp_dir pfx w file =
     (case target_file_path temp_dir pfx file of
        None \<Rightarrow> w
      | Some target \<Rightarrow>
          (case os_makedirs w (dirname target) of
             (Some e, w1) \<Rightarrow> warn w1 (ExtractWarning file e)
           | (None, w1) \<Rightarrow>
               (case zip_member zip_ref file of
                  None \<Rightarrow> warn w1 (ExtractWarning file OtherException)
                | Some Unreadable \<Rightarrow> warn w1 (ExtractWarning file OtherException)
                | Some content \<Rightarrow>
                    (case open_wb w1 target of
                       (Some e, w2) \<Rightarrow> warn w2 (ExtractWarning file e)
                     | (None, w2) \<Rightarrow>
                         (case content of
                            Stored data \<Rightarrow> file_write w2 target data
                          | _ \<Rightarrow> warn w2 (ExtractWarning file BadZipFile))))))"

text \<open>\<^verbatim>\<open>for file in tqdm(target_files, desc="Extracting")\<close>\<close>

fun extract_all :: "archive \<Rightarrow> string \<Rightarrow> string \<Rightarrow> world \<Rightarrow> string list \<Rightarrow> world" where
  "extract_all zip_ref temp_dir pfx w [] = w"
| "extract_all zip_ref temp_dir pfx w (file # files) =
     extract_all zip_ref temp_dir pfx (extract_member zip_ref temp_dir pfx w file) files"

text \<open>
  Lines 135--149, the body of the move loop: the removal of what is at the destination
  is outside the \<^verbatim>\<open>try\<close>, so an exception of \<^verbatim>\<open>os.unlink\<close> leaves the loop; an exception
  of \<^verbatim>\<open>shutil.move\<close> ends in the warning and the next item.
\<close>

definition move_item :: "string \<Rightarrow> string \<Rightarrow> world \<Rightarrow> string \<Rightarrow> (exc + unit) \<times> world" where
  "move_item temp_dir output_dir w item =
     (let src_path = path_join temp_dir item;
          dst_path = path_join output_dir item;
          removed = (if os_path_exists w dst_path
                     then (if os_path_isdir w dst_path
                           then (None, shutil_rmtree_ignore_errors w dst_path)
                           else os_unlink w dst_path)
                     else (None, w))
      in case removed of
           (Some e, w1) \<Rightarrow> (Inl e, w1)
         | (None, w1) \<Rightarrow>
             (case shutil_move w1 src_path dst_path of
                (Some e, w2) \<Rightarrow> (Inr (), warn w2 (MoveWarning item e))
              | (None, w2) \<Rightarrow> (Inr (), w2)))"

fun move_all :: "string \<Rightarrow> string \<Rightarrow> world \<Rightarrow> string list \<Rightarrow> (exc + unit) \<times> world" where
  "move_all temp_dir output_dir w [] = (Inr (), w)"
| "move_all temp_dir output_dir w (item # items) =
     (case move_item temp_dir output_dir w item of
        (Inl e, w') \<Rightarrow> (Inl e, w')
      | (Inr u, w') \<Rightarrow> move_all temp_dir output_dir w' items)"

text \<open>Lines 129--149: the destination is created, the staging directory listed, the items moved.\<close>

definition promote :: "string \<Rightarrow> string \<Rightarrow> world \<Rightarrow> (exc + unit) \<times> world" where
  "promote temp_dir output_dir w =
     (case os_makedirs w output_dir of
        (Some e, w1) \<Rightarrow> (Inl e, w1)
      | (None, w1) \<Rightarrow>
          (case os_listdir w1 temp_dir of
             Inl e \<Rightarrow> (Inl e, w1)
           | Inr items \<Rightarrow> move_all temp_dir output_dir w1 items))"

text \<open>The \<^verbatim>\<open>try\<close> block, lines 98--149, with the world it leaves behind when it raises.\<close>

definition materialize_body ::
  "archive \<Rightarrow> string list \<Rightarrow> string \<Rightarrow> string \<Rightarrow> string \<Rightarrow> world \<Rightarrow> (exc + unit) \<times> world" where
  "materialize_body zip_ref files pfx output_dir temp_dir w =
     (case os_makedirs w temp_dir of
        (Some e, w1) \<Rightarrow> (Inl e, w1)
      | (None, w1) \<Rightarrow> promote temp_dir output_dir (extract_all zip_ref temp_dir pfx w1 files))"

text \<open>The \<^verbatim>\<open>finally\<close> block, lines 151--157.\<close>

definition cleanup :: "string \<Rightarrow> world \<Rightarrow> world" where
  "cleanup temp_dir w =
     (if os_path_exists w temp_dir then shutil_rmtree_ignore_errors w temp_dir else w)"

definition extract_to_temp_and_move ::
  "archive \<Rightarrow> string list \<Rightarrow> string \<Rightarrow> string \<Rightarrow> world \<Rightarrow> (exc + unit) \<times> world" where
  "extract_to_temp_and_move zip_ref files pfx output_dir w =
     (let temp_dir = staging_dir w output_dir;
          (result, w') = materialize_body zip_ref files pfx output_dir temp_dir w
      in (result, cleanup temp_dir w'))"

subsection \<open>Orchestrator (\<^verbatim>\<open>download_github_folder\<close>, lines 159--210)\<close>

text \<open>
  The two archive URLs, and the default of the destination: the last segment of the
  folder path, or the repository name.
\<close>

definition primary_url :: "string \<Rightarrow> string \<Rightarrow> string \<Rightarrow> string" where
  "primary_url owner repo branch =
     ''https://codeload.github.com/'' @ owner @ ''/'' @ repo @ ''/zip/refs/heads/'' @ branch"

definition secondary_url :: "string \<Rightarrow> string \<Rightarrow> string \<Rightarrow> string" where
  "secondary_url owner repo branch =
     ''https://github.com/'' @ owner @ ''/'' @ repo @ ''/archive/'' @ branch @ ''.zip''"

definition default_output_dir :: "string \<Rightarrow> string \<Rightarrow> string" where
  "default_output_dir repo folder_path = (if folder_path \<noteq> [] then basename folder_path else repo)"

text \<open>
  Lines 179--185: the download with its fallback. Both calls leave \<^verbatim>\<open>timeout\<close>,
  \<^verbatim>\<open>retries\<close> and \<^verbatim>\<open>backoff_factor\<close> at their defaults (3 retries, factor 1.5), and any
  exception of the first call leads to the second.
\<close>

definition fetch_archive :: "string \<Rightarrow> string \<Rightarrow> string \<Rightarrow> world \<Rightarrow> (exc + bytesio option) \<times> world" where
  "fetch_archive owner repo branch w =
     (case download_with_progress (primary_url owner repo branch) 3 (3/2) w of
        (Inl e, w1) \<Rightarrow> download_with_progress (secondary_url owner repo branch) 3 (3/2) w1
      | (Inr zip_content, w1) \<Rightarrow> (Inr zip_content, w1))"

text \<open>
  The whole run. The decoder of the archive format is the parameter \<open>unzip\<close>:
  \<^verbatim>\<open>zipfile.ZipFile(zip_content)\<close> raises when the bytes are no archive (and when there are
  no bytes). The result is the boolean the function returns.
\<close>

definition download_github_folder ::
  "(string \<Rightarrow> archive option) \<Rightarrow> string \<Rightarrow> string option \<Rightarrow> world \<Rightarrow> bool \<times> world" where
  "download_github_folder unzip url output_dir0 w =
     (case parse_github_folder_url url of
        Inl e \<Rightarrow> (False, w)
      | Inr (owner, repo, branch, folder_path) \<Rightarrow>
          let output_dir = sanitize_path (case output_dir0 of
                                             None \<Rightarrow> default_output_dir repo folder_path
                                           | Some d \<Rightarrow> d)
          in case fetch_archive owner repo branch w of
               (Inl e, w1) \<Rightarrow> (False, w1)
             | (Inr None, w1) \<Rightarrow> (False, w1)
             | (Inr (Some zip_content), w1) \<Rightarrow>
                 (case unzip (buf zip_content) of
                    None \<Rightarrow> (False, w1)
                  | Some zip_ref \<Rightarrow>
                      (case archive_filter repo branch folder_path (namelist zip_ref) of
                         Inl e \<Rightarrow> (False, w1)
                       | Inr files \<Rightarrow>
                           (case extract_to_temp_and_move zip_ref files
                                   (folder_prefix repo branch folder_path) output_dir w1 of
                              (Inl e, w2) \<Rightarrow> (False, w2)
                            | (Inr u, w2) \<Rightarrow> (True, w2)))))"


text \<open>
  What no call of the program changes: the working directory, the environment's faults
  and the clock value.
\<close>

definition same_env :: "world \<Rightarrow> world \<Rightarrow> bool" where
  "same_env w w' \<longleftrightarrow> cwd w' = cwd w \<and> faults w' = faults w \<and> now w' = now w"

subsection \<open>Example runs\<close>

text \<open>
  A small world used to instantiate the theorems: the working directory \<^verbatim>\<open>/home/u\<close> holds
  a destination \<^verbatim>\<open>lib\<close> with two files; the clock reads 0; nothing faults; the platform
  is the least helpful one (every inexact power overflows, every long sleep is refused).
  The network either fails every attempt or answers every attempt with one payload.
\<close>

definition example_fs :: node where
  "example_fs =
     Dir [(''home'', Dir [(''u'', Dir [(''lib'', Dir [(''old.txt'', File ''old''),
                                                      (''a.txt'', File ''stale'')])])])]"

definition example_world :: "(nat \<Rightarrow> string \<Rightarrow> outcome) \<Rightarrow> world" where
  "example_world net_responses =
     \<lparr>responses = net_responses, requests = [], sleeps = [],
      libm_pow = (\<lambda>x k. Inl OverflowError), sleep_overflow = (\<lambda>t. True),
      fs = example_fs, cwd = [''home'', ''u''], faults = (\<lambda>c. False), now = 0, stdout = []\<rparr>"

definition offline :: "nat \<Rightarrow> string \<Rightarrow> outcome" where
  "offline k url = Fails RequestException"

definition online :: "nat \<Rightarrow> string \<Rightarrow> outcome" where
  "online k url = Payload [''zip'']"

text \<open>The archive of the end-to-end example, without and with directory entries.\<close>

definition example_zip :: archive where
  "example_zip =
     [(''widgets-v2/README.md'', Stored ''readme''),
      (''widgets-v2/src/lib/a.txt'', Stored ''A''),
      (''widgets-v2/src/lib/sub/b.txt'', Stored ''B'')]"

definition example_files :: "string list" where
  "example_files = [''widgets-v2/src/lib/a.txt'', ''widgets-v2/src/lib/sub/b.txt'']"

section \<open>Properties\<close>

lemma rstrip_snoc: "rstrip cs (s @ [c]) = (if c \<in> set cs then rstrip cs s else s @ [c])"
  by (simp add: rstrip_def)

lemma rstrip_id: "s = [] \<or> last s \<notin> set cs \<Longrightarrow> rstrip cs s = s"
  by (cases s rule: rev_cases) (auto simp: rstrip_def)

lemma lstrip_id: "s = [] \<or> hd s \<notin> set cs \<Longrightarrow> lstrip cs s = s"
  by (cases s) (auto simp: lstrip_def)

lemma str_split_nosep: "sep \<notin> set a \<Longrightarrow> str_split sep a = [a]"
  by (induction a) auto

lemma str_split_append: "sep \<notin> set a \<Longrightarrow> str_split sep (a @ sep # b) = a # str_split sep b"
  by (induction a) auto

lemma str_split_join:
  "segs \<noteq> [] \<Longrightarrow> \<forall>s \<in> set segs. sep \<notin> set s \<Longrightarrow> str_split sep (str_join [sep] segs) = segs"
  by (induction "[sep]" segs rule: str_join.induct) (auto simp: str_split_nosep str_split_append)

lemma set_str_join: "set (str_join sep segs) \<subseteq> set sep \<union> (\<Union>s \<in> set segs. set s)"
  by (induction sep segs rule: str_join.induct) auto

lemma str_join_nonempty: "segs \<noteq> [] \<Longrightarrow> last segs \<noteq> [] \<Longrightarrow> str_join sep segs \<noteq> []"
  by (induction sep segs rule: str_join.induct) auto

lemma last_str_join: "segs \<noteq> [] \<Longrightarrow> last segs \<noteq> [] \<Longrightarrow> last (str_join sep segs) = last (last segs)"
  by (induction sep segs rule: str_join.induct) (auto simp: str_join_nonempty)

lemma hd_str_join: "p \<noteq> [] \<Longrightarrow> hd (str_join sep (p # ps)) = hd p"
  by (cases ps) auto

lemma takeWhile_neq_id: "x \<notin> set l \<Longrightarrow> takeWhile (\<lambda>c. c \<noteq> x) l = l"
  by (induction l) auto

lemma splitparams_id: "CHR '';'' \<notin> set p \<Longrightarrow> splitparams p = p"
proof -
  assume a: "CHR '';'' \<notin> set p"
  let ?l = "rev (takeWhile (\<lambda>c. c \<noteq> CHR ''/'') (rev p))"
  have "CHR '';'' \<notin> set ?l" using a by (auto dest: set_takeWhileD)
  then have 1: "takeWhile (\<lambda>c. c \<noteq> CHR '';'') ?l = ?l"
    by (rule takeWhile_neq_id)
  have 2: "rev (dropWhile (\<lambda>c. c \<noteq> CHR ''/'') (rev p)) @ ?l = p"
    by (metis rev_append rev_rev_ident takeWhile_dropWhile_id)
  show ?thesis unfolding splitparams_def Let_def 1 by (rule 2)
qed

lemma urlparse_path_plain:
  assumes "scheme = ''http'' \<or> scheme = ''https''"
    and "\<forall>c \<in> set body. c \<notin> set ''?#;'' \<and> c \<notin> {CHR 0x09, CHR 0x0D, CHR 0x0A}"
  shows "urlparse_path (scheme @ ''://github.com/'' @ body) = CHR ''/'' # body"
proof -
  have f: "filter (\<lambda>c. c \<noteq> CHR 0x09 \<and> c \<noteq> CHR 0x0D \<and> c \<noteq> CHR 0x0A) body = body"
    using assms(2) by (simp add: filter_id_conv)
  have h: "CHR ''#'' \<notin> set body" "CHR ''?'' \<notin> set body" "CHR '';'' \<notin> set body"
    using assms(2) by auto
  have sp: "splitparams (CHR ''/'' # body) = CHR ''/'' # body"
    using h by (simp add: splitparams_id)
  from assms(1) show ?thesis
  proof
    assume "scheme = ''http''"
    then show ?thesis
      by (simp add: urlparse_path_def Let_def f takeWhile_neq_id h sp)
  next
    assume "scheme = ''https''"
    then show ?thesis
      by (simp add: urlparse_path_def Let_def f takeWhile_neq_id h sp)
  qed
qed

lemma match_owner_repo_plain:
  assumes "owner \<noteq> []" "list_all owner_char owner" "repo \<noteq> []" "repo_char (hd repo)"
  shows "match_owner_repo (owner @ ''/'' @ repo @ sfx)"
proof -
  have ns: "\<not> owner_char CHR ''/''"
    by (simp add: owner_char_def word_char_def)
  have t: "takeWhile owner_char (owner @ ''/'' @ repo @ sfx) = owner"
    using assms(2) ns by (simp add: takeWhile_append2 list_all_iff)
  have d: "dropWhile owner_char (owner @ ''/'' @ repo @ sfx) = ''/'' @ repo @ sfx"
    using assms(2) ns by (simp add: dropWhile_append2 list_all_iff)
  show ?thesis
    using assms(1,3,4) unfolding match_owner_repo_def t d
    by (cases repo) auto
qed

lemma is_github_url_plain:
  assumes "scheme = ''http'' \<or> scheme = ''https''"
    "owner \<noteq> []" "list_all owner_char owner" "repo \<noteq> []" "repo_char (hd repo)"
  shows "is_github_url (scheme @ ''://github.com/'' @ owner @ ''/'' @ repo @ sfx)"
  using assms(1) match_owner_repo_plain[OF assms(2-5), of sfx]
  by (auto simp: is_github_url_def)


lemma owner_char_plain: "owner_char c \<Longrightarrow> c \<notin> set ''/?#;'' \<and> c \<notin> {CHR 0x09, CHR 0x0D, CHR 0x0A}"
  by (auto simp: owner_char_def word_char_def)

lemma str_join_Cons2: "str_join sep (p # q # ps) = p @ sep @ str_join sep (q # ps)"
  by simp

lemma str_join_Cons_more: "\<exists>sfx. str_join sep (p # ps) = p @ sfx"
  by (cases ps) auto

lemma plain_locator_facts:
  assumes wf: "well_formed scheme owner repo rest"
  shows "rstrip ''/'' (plain_locator scheme owner repo rest) = plain_locator scheme owner repo rest"
    and "is_github_url (plain_locator scheme owner repo rest)"
    and "path_parts (plain_locator scheme owner repo rest) = owner # repo # rest"
proof -
  define ok where "ok = (\<lambda>c. c \<notin> set ''/?#;'' \<and> c \<notin> {CHR 0x09, CHR 0x0D, CHR 0x0A})"
  define segs where "segs = owner # repo # rest"
  define body where "body = str_join ''/'' segs"
  from wf have sch: "scheme = ''http'' \<or> scheme = ''https''"
    and own: "owner \<noteq> []" "list_all owner_char owner"
    and rep: "repo \<noteq> []" "repo_char (hd repo)"
    and pl: "list_all plain_segment (repo # rest)" and la: "last (repo # rest) \<noteq> []"
    by (auto simp: well_formed_def)
  have ok_owner: "\<forall>c \<in> set owner. ok c"
    using own(2) owner_char_plain by (auto simp: list_all_iff ok_def)
  have ok_rest: "\<forall>s \<in> set (repo # rest). \<forall>c \<in> set s. ok c"
    using pl by (simp add: list_all_iff plain_segment_def ok_def)
  have seg_ok: "\<forall>s \<in> set segs. \<forall>c \<in> set s. ok c"
    using ok_owner ok_rest by (simp add: segs_def)
  have okD: "c \<noteq> CHR ''/''" "c \<notin> set ''?#;'' \<and> c \<notin> {CHR 0x09, CHR 0x0D, CHR 0x0A}" if "ok c" for c
    using that by (simp_all add: ok_def)
  have body_plain: "\<forall>c \<in> set body. c \<notin> set ''?#;'' \<and> c \<notin> {CHR 0x09, CHR 0x0D, CHR 0x0A}"
  proof
    fix c assume "c \<in> set body"
    then have "c \<in> set ''/'' \<union> (\<Union>s \<in> set segs. set s)"
      unfolding body_def by (rule subsetD[OF set_str_join])
    then consider "c = CHR ''/''" | s where "s \<in> set segs" "c \<in> set s"
      by auto
    then show "c \<notin> set ''?#;'' \<and> c \<notin> {CHR 0x09, CHR 0x0D, CHR 0x0A}"
    proof cases
      case 1
      then show ?thesis by simp
    next
      case 2
      then have "ok c" using seg_ok by blast
      then show ?thesis by (rule okD(2))
    qed
  qed
  have segs_ne: "segs \<noteq> []" by (simp add: segs_def)
  have lastseg: "last segs \<noteq> []" using la by (simp add: segs_def)
  have body_ne: "body \<noteq> []"
    unfolding body_def by (rule str_join_nonempty[OF segs_ne lastseg])
  have "last (last segs) \<in> set (last segs)" using lastseg by simp
  moreover have "last segs \<in> set segs" using segs_ne by (rule last_in_set)
  ultimately have "ok (last (last segs))"
    using seg_ok by blast
  then have "last (last segs) \<noteq> CHR ''/''" by (rule okD(1))
  then have last_body: "last body \<noteq> CHR ''/''"
    unfolding body_def by (simp add: last_str_join[OF segs_ne lastseg])
  have "hd owner \<in> set owner" using own(1) by simp
  then have "ok (hd owner)" using ok_owner by blast
  then have "hd owner \<noteq> CHR ''/''" by (rule okD(1))
  then have hd_body: "hd body \<noteq> CHR ''/''"
    unfolding body_def segs_def by (simp add: hd_str_join[OF own(1)] del: str_join.simps)
  obtain sfx where sfx: "str_join ''/'' (repo # rest) = repo @ sfx"
    using str_join_Cons_more by blast
  have body_eq: "body = owner @ ''/'' @ repo @ sfx"
    by (simp add: body_def segs_def sfx)
  have loc: "plain_locator scheme owner repo rest = scheme @ ''://github.com/'' @ body"
    by (simp add: plain_locator_def body_def segs_def)
  show "is_github_url (plain_locator scheme owner repo rest)"
    unfolding loc body_eq
    by (rule is_github_url_plain[OF sch own rep])
  have up: "urlparse_path (plain_locator scheme owner repo rest) = CHR ''/'' # body"
    unfolding loc by (rule urlparse_path_plain[OF sch body_plain])
  have "lstrip ''/'' (CHR ''/'' # body) = body"
    using hd_body body_ne by (cases body) (auto simp: lstrip_def)
  moreover have "rstrip ''/'' body = body"
    using last_body by (intro rstrip_id) simp
  ultimately have st: "strip ''/'' (CHR ''/'' # body) = body"
    by (simp add: strip_def)
  have "\<forall>s \<in> set segs. CHR ''/'' \<notin> set s"
    using seg_ok okD(1) by blast
  then have "str_split CHR ''/'' body = segs"
    unfolding body_def using str_split_join[OF segs_ne] by simp
  then show "path_parts (plain_locator scheme owner repo rest) = owner # repo # rest"
    by (simp only: path_parts_def up st segs_def)
  have "last (plain_locator scheme owner repo rest) = last body"
    using body_ne by (simp add: loc)
  then show "rstrip ''/'' (plain_locator scheme owner repo rest) = plain_locator scheme owner repo rest"
    using last_body by (intro rstrip_id) simp
qed

lemma rstrip_slash_append: "rstrip ''/'' (url @ ''/'') = rstrip ''/'' url"
  by (simp add: rstrip_def)

subsection \<open>Reference Parser\<close>

lemma parse_trailing_slash: "parse_github_folder_url (url @ ''/'') = parse_github_folder_url url"
  by (simp add: parse_github_folder_url_def rstrip_slash_append)

lemma parse_accepted:
  assumes "parse_github_folder_url url = Inr (owner, repo, branch, folder_path)"
  defines "parts \<equiv> path_parts (rstrip ''/'' url)"
  shows "is_github_url (rstrip ''/'' url) \<and> 2 \<le> length parts
    \<and> owner = parts ! 0 \<and> repo = parts ! 1
    \<and> (3 < length parts \<and> parts ! 2 \<in> {''tree'', ''blob''} \<longrightarrow>
           branch = parts ! 3 \<and> folder_path = str_join ''/'' (drop 4 parts))
    \<and> (\<not> (2 < length parts \<and> parts ! 2 \<in> {''tree'', ''blob''}) \<longrightarrow>
           branch = ''main'' \<and> folder_path = '''')"
proof -
  define kw where "kw = (2 < length parts \<and> parts ! 2 \<in> set [''tree'', ''blob''])"
  have kw_eq: "(2 < length parts \<and> parts ! 2 \<in> {''tree'', ''blob''}) = kw"
    by (simp add: kw_def)
  from assms(1) have g: "is_github_url (rstrip ''/'' url)"
    by (simp add: parse_github_folder_url_def Let_def split: if_splits)
  from assms(1) g have nl: "\<not> length parts < 2"
    by (simp add: parse_github_folder_url_def Let_def parts_def split: if_splits)
  have "parse_github_folder_url url =
      (case (if kw then (if 3 < length parts then parts ! 3 else ''main'',
                         if 4 < length parts then str_join ''/'' (drop 4 parts) else [])
             else (''main'', []))
       of (b, f) \<Rightarrow> Inr (parts ! 0, parts ! 1, b, f))"
    using g nl by (simp add: parse_github_folder_url_def Let_def parts_def kw_def)
  with assms(1) have res: "Inr (owner, repo, branch, folder_path) =
      Inr (parts ! 0, parts ! 1,
           if kw then (if 3 < length parts then parts ! 3 else ''main'') else ''main'',
           if kw then (if 4 < length parts then str_join ''/'' (drop 4 parts) else []) else [])"
    by (cases kw) simp_all
  have d4: "str_join ''/'' (drop 4 parts) = []" if "\<not> 4 < length parts"
    using that by simp
  have "3 < length parts \<and> kw \<longrightarrow> branch = parts ! 3 \<and> folder_path = str_join ''/'' (drop 4 parts)"
    using res d4 by (cases kw; cases "4 < length parts") simp_all
  moreover have "\<not> kw \<longrightarrow> branch = ''main'' \<and> folder_path = []"
    using res by (cases kw) simp_all
  moreover have "owner = parts ! 0 \<and> repo = parts ! 1"
    using res by simp
  moreover have a: "(3 < length parts \<and> parts ! 2 \<in> {''tree'', ''blob''}) = (3 < length parts \<and> kw)"
    by (auto simp: kw_def)
  ultimately show ?thesis
    using g nl unfolding a kw_eq by simp
qed

lemma parse_plain:
  assumes wf: "well_formed scheme owner repo rest"
  shows "parse_github_folder_url (plain_locator scheme owner repo rest) =
     Inr (owner, repo,
          if rest \<noteq> [] \<and> hd rest \<in> {''tree'', ''blob''}
          then (if tl rest \<noteq> [] then hd (tl rest) else ''main'', str_join ''/'' (drop 2 rest))
          else (''main'', []))"
proof -
  note f = plain_locator_facts[OF wf]
  define kw where "kw = (rest \<noteq> [] \<and> hd rest \<in> set [''tree'', ''blob''])"
  have kw_eq: "(rest \<noteq> [] \<and> hd rest \<in> {''tree'', ''blob''}) = kw"
    by (simp add: kw_def)
  have c1: "(2 < length (owner # repo # rest) \<and> (owner # repo # rest) ! 2 \<in> set [''tree'', ''blob'']) = kw"
    unfolding kw_def by (cases rest) simp_all
  have c2: "(if 3 < length (owner # repo # rest) then (owner # repo # rest) ! 3 else ''main'')
            = (if tl rest \<noteq> [] then hd (tl rest) else ''main'')"
    by (cases rest; cases "tl rest") simp_all
  have c3: "(if 4 < length (owner # repo # rest) then str_join ''/'' (drop 4 (owner # repo # rest)) else [])
            = str_join ''/'' (drop 2 rest)"
    by (cases rest; cases "tl rest"; cases "tl (tl rest)") simp_all
  have c0: "\<not> length (owner # repo # rest) < 2" "(owner # repo # rest) ! 0 = owner" "(owner # repo # rest) ! 1 = repo"
    by simp_all
  show ?thesis
    unfolding parse_github_folder_url_def Let_def f(1) f(3) c1 c2 c3 kw_eq
    using f(2) c0 by (cases kw) simp_all
qed

lemma well_formed_selector:
  assumes "well_formed scheme owner repo []" and "kw \<in> {''tree'', ''blob''}"
  shows "well_formed scheme owner repo [kw]"
  using assms by (auto simp: well_formed_def plain_segment_def)

text \<open>
  Claim C6. For a locator the parser accepts, with the segments of its path taken after
  the trailing slashes are stripped: the first two segments are the owner and the
  repository; when the third segment is \<open>tree\<close> or \<open>blob\<close> and a fourth segment exists,
  the fourth segment is the revision and the remaining segments, joined by slashes, are
  the subpath; when the third segment is neither keyword (or is missing), the revision
  is \<open>main\<close> and the subpath is empty. One more trailing slash never changes the result.
  On a plain locator \<open>scheme://github.com/owner/repo/...\<close> (no query, fragment or
  parameters) the segments are the ones written between the slashes, so the revision
  and the subpath are extracted exactly. (A keyword with no fourth segment is the
  subject of claim C10.)
\<close>

theorem C6_parser_segments:
  "(parse_github_folder_url url = Inr (owner, repo, branch, folder_path) \<longrightarrow>
      (let parts = path_parts (rstrip ''/'' url) in
         2 \<le> length parts \<and> owner = parts ! 0 \<and> repo = parts ! 1 \<and>
         (3 < length parts \<and> parts ! 2 \<in> {''tree'', ''blob''} \<longrightarrow>
            branch = parts ! 3 \<and> folder_path = str_join ''/'' (drop 4 parts)) \<and>
         (\<not> (2 < length parts \<and> parts ! 2 \<in> {''tree'', ''blob''}) \<longrightarrow>
            branch = ''main'' \<and> folder_path = [])))
   \<and> parse_github_folder_url (url @ ''/'') = parse_github_folder_url url
   \<and> (well_formed scheme ow rp (kw # rv # segs) \<and> kw \<in> {''tree'', ''blob''} \<longrightarrow>
        path_parts (plain_locator scheme ow rp (kw # rv # segs)) = ow # rp # kw # rv # segs \<and>
        parse_github_folder_url (plain_locator scheme ow rp (kw # rv # segs))
          = Inr (ow, rp, rv, str_join ''/'' segs))
   \<and> (well_formed scheme ow rp rest \<and> (rest = [] \<or> hd rest \<notin> {''tree'', ''blob''}) \<longrightarrow>
        path_parts (plain_locator scheme ow rp rest) = ow # rp # rest \<and>
        parse_github_folder_url (plain_locator scheme ow rp rest) = Inr (ow, rp, ''main'', []))"
proof (intro conjI impI)
  assume "parse_github_folder_url url = Inr (owner, repo, branch, folder_path)"
  from parse_accepted[OF this]
  show "let parts = path_parts (rstrip ''/'' url) in
         2 \<le> length parts \<and> owner = parts ! 0 \<and> repo = parts ! 1 \<and>
         (3 < length parts \<and> parts ! 2 \<in> {''tree'', ''blob''} \<longrightarrow>
            branch = parts ! 3 \<and> folder_path = str_join ''/'' (drop 4 parts)) \<and>
         (\<not> (2 < length parts \<and> parts ! 2 \<in> {''tree'', ''blob''}) \<longrightarrow>
            branch = ''main'' \<and> folder_path = [])"
    unfolding Let_def by blast
next
  show "parse_github_folder_url (url @ ''/'') = parse_github_folder_url url"
    by (rule parse_trailing_slash)
next
  assume a: "well_formed scheme ow rp (kw # rv # segs) \<and> kw \<in> {''tree'', ''blob''}"
  then show "path_parts (plain_locator scheme ow rp (kw # rv # segs)) = ow # rp # kw # rv # segs"
    by (simp add: plain_locator_facts(3))
  from a have "parse_github_folder_url (plain_locator scheme ow rp (kw # rv # segs)) =
     Inr (ow, rp,
          if kw # rv # segs \<noteq> [] \<and> hd (kw # rv # segs) \<in> {''tree'', ''blob''}
          then (if tl (kw # rv # segs) \<noteq> [] then hd (tl (kw # rv # segs)) else ''main'',
                str_join ''/'' (drop 2 (kw # rv # segs)))
          else (''main'', []))"
    by (intro parse_plain) simp
  with a show "parse_github_folder_url (plain_locator scheme ow rp (kw # rv # segs))
          = Inr (ow, rp, rv, str_join ''/'' segs)"
    by auto
next
  assume a: "well_formed scheme ow rp rest \<and> (rest = [] \<or> hd rest \<notin> {''tree'', ''blob''})"
  then show "path_parts (plain_locator scheme ow rp rest) = ow # rp # rest"
    by (simp add: plain_locator_facts(3))
  from a have "parse_github_folder_url (plain_locator scheme ow rp rest) =
     Inr (ow, rp,
          if rest \<noteq> [] \<and> hd rest \<in> {''tree'', ''blob''}
          then (if tl rest \<noteq> [] then hd (tl rest) else ''main'', str_join ''/'' (drop 2 rest))
          else (''main'', []))"
    by (intro parse_plain) simp
  with a show "parse_github_folder_url (plain_locator scheme ow rp rest) = Inr (ow, rp, ''main'', [])"
    by auto
qed

theorem C6_parser_segments_witness:
  "well_formed ''https'' ''acme'' ''widgets'' [''tree'', ''v2'', ''src'', ''lib'']
   \<and> plain_locator ''https'' ''acme'' ''widgets'' [''tree'', ''v2'', ''src'', ''lib'']
       = ''https://github.com/acme/widgets/tree/v2/src/lib''
   \<and> path_parts ''https://github.com/acme/widgets/tree/v2/src/lib''
       = [''acme'', ''widgets'', ''tree'', ''v2'', ''src'', ''lib'']
   \<and> parse_github_folder_url ''https://github.com/acme/widgets/tree/v2/src/lib''
       = Inr (''acme'', ''widgets'', ''v2'', ''src/lib'')
   \<and> parse_github_folder_url ''https://github.com/acme/widgets/tree/v2/src/lib/''
       = Inr (''acme'', ''widgets'', ''v2'', ''src/lib'')
   \<and> well_formed ''http'' ''acme'' ''widgets'' []
   \<and> parse_github_folder_url ''http://github.com/acme/widgets'' = Inr (''acme'', ''widgets'', ''main'', [])"
proof -
  have wf: "well_formed ''https'' ''acme'' ''widgets'' [''tree'', ''v2'', ''src'', ''lib'']"
    by (simp add: well_formed_def owner_char_def repo_char_def word_char_def plain_segment_def)
  have wf0: "well_formed ''http'' ''acme'' ''widgets'' []"
    by (simp add: well_formed_def owner_char_def repo_char_def word_char_def plain_segment_def)
  have loc: "plain_locator ''https'' ''acme'' ''widgets'' [''tree'', ''v2'', ''src'', ''lib'']
       = ''https://github.com/acme/widgets/tree/v2/src/lib''"
    by (simp add: plain_locator_def)
  have loc0: "plain_locator ''http'' ''acme'' ''widgets'' [] = ''http://github.com/acme/widgets''"
    by (simp add: plain_locator_def)
  note t = C6_parser_segments[where url = "''https://github.com/acme/widgets/tree/v2/src/lib''"
      and scheme = "''https''" and ow = "''acme''" and rp = "''widgets''" and kw = "''tree''"
      and rv = "''v2''" and segs = "[''src'', ''lib'']" and rest = "[]" and owner = "''acme''"
      and repo = "''widgets''" and branch = "''v2''" and folder_path = "''src/lib''"]
  note t0 = C6_parser_segments[where scheme = "''http''" and ow = "''acme''" and rp = "''widgets''"
      and rest = "[]" and url = "''http://github.com/acme/widgets''" and owner = "''acme''"
      and repo = "''widgets''" and branch = "''main''" and folder_path = "[]" and kw = "''tree''"
      and rv = "''v2''" and segs = "[]"]
  from t wf have p: "path_parts ''https://github.com/acme/widgets/tree/v2/src/lib''
       = [''acme'', ''widgets'', ''tree'', ''v2'', ''src'', ''lib'']"
    and q: "parse_github_folder_url ''https://github.com/acme/widgets/tree/v2/src/lib''
       = Inr (''acme'', ''widgets'', ''v2'', ''src/lib'')"
    unfolding loc by simp_all
  from t q have q': "parse_github_folder_url ''https://github.com/acme/widgets/tree/v2/src/lib/''
       = Inr (''acme'', ''widgets'', ''v2'', ''src/lib'')"
    by simp
  from t0 wf0 have r: "parse_github_folder_url ''http://github.com/acme/widgets'' = Inr (''acme'', ''widgets'', ''main'', [])"
    unfolding loc0 by simp
  from wf wf0 loc p q q' r show ?thesis by simp
qed

text \<open>
  Claim C10. A locator whose path has exactly three segments, the third being \<open>tree\<close> or
  \<open>blob\<close>, is parsed without an error: the revision is \<open>main\<close> and the subpath is empty.
  For a plain locator \<open>scheme://github.com/owner/repo/tree\<close> this is the result of
  parsing \<open>scheme://github.com/owner/repo\<close>.
\<close>

theorem C10_selector_without_revision:
  "(is_github_url (rstrip ''/'' url) \<and> path_parts (rstrip ''/'' url) = [ow, rp, kw]
      \<and> kw \<in> {''tree'', ''blob''} \<longrightarrow>
        parse_github_folder_url url = Inr (ow, rp, ''main'', []))
   \<and> (well_formed scheme owner repo [] \<and> sel \<in> {''tree'', ''blob''} \<longrightarrow>
        path_parts (plain_locator scheme owner repo [sel]) = [owner, repo, sel] \<and>
        parse_github_folder_url (plain_locator scheme owner repo [sel]) = Inr (owner, repo, ''main'', []) \<and>
        parse_github_folder_url (plain_locator scheme owner repo [sel])
          = parse_github_folder_url (plain_locator scheme owner repo []))"
proof (intro conjI impI)
  assume "is_github_url (rstrip ''/'' url) \<and> path_parts (rstrip ''/'' url) = [ow, rp, kw]
      \<and> kw \<in> {''tree'', ''blob''}"
  then show "parse_github_folder_url url = Inr (ow, rp, ''main'', [])"
    by (auto simp: parse_github_folder_url_def Let_def)
next
  assume a: "well_formed scheme owner repo [] \<and> sel \<in> {''tree'', ''blob''}"
  then have wf1: "well_formed scheme owner repo [sel]"
    by (intro well_formed_selector) simp_all
  from a have wf0: "well_formed scheme owner repo []" by simp
  show "path_parts (plain_locator scheme owner repo [sel]) = [owner, repo, sel]"
    by (rule plain_locator_facts(3)[OF wf1])
  have p0: "parse_github_folder_url (plain_locator scheme owner repo []) = Inr (owner, repo, ''main'', [])"
    using parse_plain[OF wf0] by simp
  show p1: "parse_github_folder_url (plain_locator scheme owner repo [sel]) = Inr (owner, repo, ''main'', [])"
    using parse_plain[OF wf1] a by auto
  show "parse_github_folder_url (plain_locator scheme owner repo [sel])
          = parse_github_folder_url (plain_locator scheme owner repo [])"
    by (simp only: p0 p1)
qed

theorem C10_selector_without_revision_witness:
  "well_formed ''https'' ''acme'' ''widgets'' []
   \<and> plain_locator ''https'' ''acme'' ''widgets'' [''tree''] = ''https://github.com/acme/widgets/tree''
   \<and> path_parts ''https://github.com/acme/widgets/tree'' = [''acme'', ''widgets'', ''tree'']
   \<and> parse_github_folder_url ''https://github.com/acme/widgets/tree'' = Inr (''acme'', ''widgets'', ''main'', [])
   \<and> parse_github_folder_url ''https://github.com/acme/widgets/tree''
       = parse_github_folder_url ''https://github.com/acme/widgets''"
proof -
  have wf0: "well_formed ''https'' ''acme'' ''widgets'' []"
    by (simp add: well_formed_def owner_char_def repo_char_def word_char_def plain_segment_def)
  have loc: "plain_locator ''https'' ''acme'' ''widgets'' [''tree''] = ''https://github.com/acme/widgets/tree''"
    "plain_locator ''https'' ''acme'' ''widgets'' [] = ''https://github.com/acme/widgets''"
    by (simp_all add: plain_locator_def)
  note t = C10_selector_without_revision[where scheme = "''https''" and owner = "''acme''"
      and repo = "''widgets''" and sel = "''tree''" and url = "''https://github.com/acme/widgets/tree''"
      and ow = "''acme''" and rp = "''widgets''" and kw = "''tree''"]
  from t wf0 have "path_parts ''https://github.com/acme/widgets/tree'' = [''acme'', ''widgets'', ''tree'']
   \<and> parse_github_folder_url ''https://github.com/acme/widgets/tree'' = Inr (''acme'', ''widgets'', ''main'', [])
   \<and> parse_github_folder_url ''https://github.com/acme/widgets/tree''
       = parse_github_folder_url ''https://github.com/acme/widgets''"
    unfolding loc by blast
  with wf0 loc(1) show ?thesis by blast
qed

subsection \<open>Resilient Fetcher\<close>




lemma retry_loop_exhausted:
  assumes "int c + int n = retries"
    and "\<forall>k \<le> n. responses w (length (requests w) + k) url = Fails (e k) \<and> network_class (e k)"
    and "\<forall>k. c < k \<and> k \<le> c + n \<longrightarrow>
           float_pow (libm_pow w) b k = Inr (t k) \<and> time_sleep (sleep_overflow w) (t k) = None"
  shows "retry_loop url retries b (int c) w =
     (Inl (e n),
      w\<lparr>requests := requests w @ replicate (Suc n) url,
        sleeps := sleeps w @ map t [Suc c ..< Suc (c + n)]\<rparr>)"
  using assms
proof (induction n arbitrary: c w e)
  case 0
  then show ?case by (subst retry_loop.simps) (simp add: Let_def)
next
  case (Suc n)
  from Suc.prems(2) have e: "responses w (length (requests w)) url = Fails (e 0)" "network_class (e 0)"
    by force+
  from Suc.prems(3) have t: "float_pow (libm_pow w) b (Suc c) = Inr (t (Suc c))"
    "time_sleep (sleep_overflow w) (t (Suc c)) = None"
    by simp_all
  let ?w' = "w\<lparr>requests := requests w @ [url], sleeps := sleeps w @ [t (Suc c)]\<rparr>"
  have step: "retry_loop url retries b (int c) w = retry_loop url retries b (int (Suc c)) ?w'"
    using Suc.prems(1) e t by (subst retry_loop.simps) (simp add: Let_def nat_add_distrib add.commute)
  have "retry_loop url retries b (int (Suc c)) ?w' =
     (Inl ((\<lambda>k. e (Suc k)) n),
      ?w'\<lparr>requests := requests ?w' @ replicate (Suc n) url,
          sleeps := sleeps ?w' @ map t [Suc (Suc c) ..< Suc (Suc c + n)]\<rparr>)"
  proof (rule Suc.IH)
    show "int (Suc c) + int n = retries" using Suc.prems(1) by simp
    show "\<forall>k\<le>n. responses ?w' (length (requests ?w') + k) url = Fails (e (Suc k)) \<and> network_class (e (Suc k))"
      using Suc.prems(2) by (auto dest: spec[where x = "Suc _"])
    show "\<forall>k. Suc c < k \<and> k \<le> Suc c + n \<longrightarrow>
           float_pow (libm_pow ?w') b k = Inr (t k) \<and> time_sleep (sleep_overflow ?w') (t k) = None"
      using Suc.prems(3) by simp
  qed
  moreover have "[Suc c ..< Suc (c + Suc n)] = Suc c # [Suc (Suc c) ..< Suc (Suc c + n)]"
    by (simp add: upt_conv_Cons)
  ultimately show ?case
    unfolding step by (simp add: replicate_app_Cons_same)
qed

text \<open>The waits of the default factor 1.5 with three retries are exact and are slept.\<close>

lemma exact_double_default:
  "exact_double ((3/2) ^ 1)" "exact_double ((3/2) ^ 2)" "exact_double ((3/2) ^ 3)"
  by (code_simp)+

lemma default_waits:
  assumes "0 < k" and "k \<le> 3"
  shows "float_pow libm (3/2) k = Inr ((3/2) ^ k) \<and> time_sleep overflow ((3/2) ^ k) = None"
proof -
  from assms consider "k = 1" | "k = 2" | "k = 3" by linarith
  then show ?thesis
  proof cases
    case 1
    then show ?thesis using exact_double_default(1) by (simp add: float_pow_def time_sleep_def)
  next
    case 2
    then show ?thesis using exact_double_default(2)
      by (simp add: float_pow_def time_sleep_def power2_eq_square)
  next
    case 3
    then show ?thesis using exact_double_default(3)
      by (simp add: float_pow_def time_sleep_def power3_eq_cube)
  qed
qed






subsection \<open>Paths and the write path of a member\<close>

lemma str_split_ne: "str_split sep s \<noteq> []"
  by (induction s) (auto split: list.splits)

lemma str_split_app: "str_split sep (a @ sep # b) = str_split sep a @ str_split sep b"
proof (induction a)
  case Nil
  then show ?case by simp
next
  case (Cons c a)
  obtain w ws where w: "str_split sep a = w # ws"
    using str_split_ne[of sep a] by (cases "str_split sep a") auto
  show ?case using Cons w by simp
qed

lemma norm_path_append: "norm_path cur (xs @ ys) = norm_path (norm_path cur xs) ys"
  by (induction xs arbitrary: cur) simp_all

lemma norm_path_no_dotdot: "''..'' \<notin> set ss \<Longrightarrow> prefix cur (norm_path cur ss)"
proof (induction ss arbitrary: cur)
  case Nil
  then show ?case by simp
next
  case (Cons s ss)
  have "prefix cur (cur @ [s])" by simp
  moreover have "prefix (cur @ [s]) (norm_path (cur @ [s]) ss)"
    using Cons by simp
  ultimately have "prefix cur (norm_path (cur @ [s]) ss)"
    by (rule prefix_order.trans)
  then show ?case using Cons by auto
qed

lemma rstrip_decomp: "\<exists>seps. set seps \<subseteq> set cs \<and> s = rstrip cs s @ seps"
proof -
  have "s = rev (dropWhile (\<lambda>c. c \<in> set cs) (rev s)) @ rev (takeWhile (\<lambda>c. c \<in> set cs) (rev s))"
    by (metis rev_append rev_rev_ident takeWhile_dropWhile_id)
  moreover have "set (rev (takeWhile (\<lambda>c. c \<in> set cs) (rev s))) \<subseteq> set cs"
    by (auto dest: set_takeWhileD)
  ultimately show ?thesis unfolding rstrip_def by blast
qed

lemma rstrip_last: "rstrip cs s = [] \<or> last (rstrip cs s) \<notin> set cs"
proof (cases "dropWhile (\<lambda>c. c \<in> set cs) (rev s)")
  case Nil
  then show ?thesis by (simp add: rstrip_def)
next
  case (Cons a l)
  then have "\<not> a \<in> set cs" by (metis hd_dropWhile list.sel(1) list.distinct(1))
  then show ?thesis using Cons by (simp add: rstrip_def)
qed

lemma resolve_join:
  assumes "\<not> startswith b ''/''"
  shows "resolve wd (path_join a b) = norm_path (resolve wd a) (str_split CHR ''/'' b)"
proof (cases "a = []")
  case True
  then have "path_join a b = b" using assms by (simp add: path_join_def)
  moreover have "resolve wd [] = wd" by (simp add: resolve_def)
  moreover have "resolve wd b = norm_path wd (str_split CHR ''/'' b)"
    using assms by (simp add: resolve_def)
  ultimately show ?thesis using True by simp
next
  case False
  let ?base = "if startswith a ''/'' then [] else wd"
  have sw: "startswith (a @ x) ''/'' = startswith a ''/''" for x
    using False by (cases a) simp_all
  have "\<exists>a'. resolve wd a = norm_path ?base (str_split CHR ''/'' a')
      \<and> path_join a b = a' @ CHR ''/'' # b \<and> startswith (a' @ CHR ''/'' # b) ''/'' = startswith a ''/''"
  proof (cases "last a = CHR ''/''")
    case True
    then obtain a' where a': "a = a' @ ''/''" using False
      by (metis append_butlast_last_id)
    have "str_split CHR ''/'' a = str_split CHR ''/'' a' @ [[]]"
      unfolding a' using str_split_app[of "CHR ''/''" a' "[]"] by simp
    then have "resolve wd a = norm_path ?base (str_split CHR ''/'' a')"
      by (simp add: resolve_def norm_path_append)
    moreover have "path_join a b = a' @ CHR ''/'' # b"
      using True assms False by (simp add: path_join_def a')
    moreover have "startswith (a' @ CHR ''/'' # b) ''/'' = startswith a ''/''"
      using sw[of b] by (simp add: a')
    ultimately show ?thesis by blast
  next
    case nl: False
    have "resolve wd a = norm_path ?base (str_split CHR ''/'' a)"
      by (simp add: resolve_def)
    moreover have "path_join a b = a @ CHR ''/'' # b"
      using nl assms False by (simp add: path_join_def)
    moreover have "startswith (a @ CHR ''/'' # b) ''/'' = startswith a ''/''"
      by (rule sw)
    ultimately show ?thesis by blast
  qed
  then obtain a' where a': "resolve wd a = norm_path ?base (str_split CHR ''/'' a')"
    "path_join a b = a' @ CHR ''/'' # b" "startswith (a' @ CHR ''/'' # b) ''/'' = startswith a ''/''"
    by blast
  show ?thesis
    unfolding a'(2) resolve_def[of wd "a' @ CHR ''/'' # b"] a'(3) str_split_app norm_path_append
    using a'(1) by simp
qed

lemma inside_join:
  assumes "\<not> startswith b ''/''" and "''..'' \<notin> set (str_split CHR ''/'' b)"
  shows "inside wd a (path_join a b)"
  unfolding inside_def resolve_join[OF assms(1)] by (rule norm_path_no_dotdot[OF assms(2)])

text \<open>
  A file name is a non-empty string without a slash that is neither \<^verbatim>\<open>.\<close> nor \<^verbatim>\<open>..\<close>;
  joined onto a directory it names the child of that name.
\<close>

lemma resolve_join_name:
  assumes "valid_name n"
  shows "resolve wd (path_join a n) = resolve wd a @ [n]"
proof -
  from assms have ns: "\<not> startswith n ''/''"
    by (cases n) (auto simp: valid_name_def)
  from assms have "str_split CHR ''/'' n = [n]"
    by (intro str_split_nosep) (simp add: valid_name_def)
  then show ?thesis
    using assms by (simp add: resolve_join[OF ns] valid_name_def)
qed

lemma walk_norm_path: "walk t cur ss = Some l \<Longrightarrow> l = norm_path cur ss"
proof (induction ss arbitrary: cur)
  case Nil
  then show ?case by simp
next
  case (Cons s ss)
  from Cons.prems have d: "is_dir t cur" by (simp split: if_splits)
  show ?case
  proof (cases "s = [] \<or> s = ''.''")
    case True
    then have "walk t cur ss = Some l" using Cons.prems d by simp
    from Cons.IH[OF this] True show ?thesis by simp
  next
    case False
    show ?thesis
    proof (cases "s = ''..''")
      case True
      then have "walk t (butlast cur) ss = Some l" using Cons.prems d False by simp
      from Cons.IH[OF this] True False show ?thesis by simp
    next
      case ndd: False
      then have "walk t (cur @ [s]) ss = Some l" using Cons.prems d False by simp
      from Cons.IH[OF this] ndd False show ?thesis by simp
    qed
  qed
qed

lemma locate_resolve: "locate w p = Some l \<Longrightarrow> l = resolve (cwd w) p"
  unfolding locate_def resolve_def
  by (cases "p = []") (simp_all add: walk_norm_path)

text \<open>
  Claim C1, as the code has it, on a POSIX system (the model of \<^verbatim>\<open>os.path.join\<close> is
  \<^verbatim>\<open>posixpath.join\<close>: the slash is the only separator and the join restarts only at a part
  that begins with a slash). The path a selected member is written to is the staging
  directory joined with the member's prefix-relative path from which the trailing
  slashes and backslashes, and nothing else, have been removed. That path lies inside
  the staging directory whenever the sanitized relative path does not start with a slash
  and has no \<^verbatim>\<open>..\<close> segment: on the text of the two paths (\<open>inside\<close>), and in every
  filesystem in which the kernel finds a location for both (\<open>locate\<close>). The code neither
  rejects nor rewrites such segments.
\<close>

theorem C1_write_path_sanitized:
  "target_file_path temp_dir pfx member = Some p \<longrightarrow>
     (let rel_path = drop (length pfx) member; clean = sanitize_path rel_path in
        rel_path \<noteq> []
      \<and> (\<exists>seps. set seps \<subseteq> {CHR ''/'', CHR 0x5C} \<and> rel_path = clean @ seps)
      \<and> (clean = [] \<or> last clean \<notin> {CHR ''/'', CHR 0x5C})
      \<and> p = path_join temp_dir clean
      \<and> (\<not> startswith clean ''/'' \<and> ''..'' \<notin> set (str_split CHR ''/'' clean) \<longrightarrow>
           inside wd temp_dir p
         \<and> (locate w temp_dir = Some staged \<and> locate w p = Some l \<longrightarrow> prefix staged l)))"
proof
  assume a: "target_file_path temp_dir pfx member = Some p"
  define rel_path where "rel_path = drop (length pfx) member"
  define clean where "clean = sanitize_path rel_path"
  from a have ne: "rel_path \<noteq> []" and p: "p = path_join temp_dir clean"
    by (auto simp: target_file_path_def Let_def rel_path_def clean_def split: if_splits)
  have d: "\<exists>seps. set seps \<subseteq> {CHR ''/'', CHR 0x5C} \<and> rel_path = clean @ seps"
    using rstrip_decomp[of "[CHR ''/'', CHR 0x5C]" rel_path] by (simp add: clean_def sanitize_path_def)
  have l: "clean = [] \<or> last clean \<notin> {CHR ''/'', CHR 0x5C}"
    using rstrip_last[of "[CHR ''/'', CHR 0x5C]" rel_path] by (simp add: clean_def sanitize_path_def)
  have i: "inside v temp_dir p"
    if "\<not> startswith clean ''/'' \<and> ''..'' \<notin> set (str_split CHR ''/'' clean)" for v
    unfolding p using inside_join that by blast
  have k: "prefix staged l"
    if c: "\<not> startswith clean ''/'' \<and> ''..'' \<notin> set (str_split CHR ''/'' clean)"
      and f: "locate w temp_dir = Some staged \<and> locate w p = Some l"
  proof -
    from f have "staged = resolve (cwd w) temp_dir" "l = resolve (cwd w) p"
      by (simp_all add: locate_resolve)
    with i[OF c, of "cwd w"] show ?thesis by (simp add: inside_def)
  qed
  from ne d l p i k
  show "let rel_path = drop (length pfx) member; clean = sanitize_path rel_path in
        rel_path \<noteq> []
      \<and> (\<exists>seps. set seps \<subseteq> {CHR ''/'', CHR 0x5C} \<and> rel_path = clean @ seps)
      \<and> (clean = [] \<or> last clean \<notin> {CHR ''/'', CHR 0x5C})
      \<and> p = path_join temp_dir clean
      \<and> (\<not> startswith clean ''/'' \<and> ''..'' \<notin> set (str_split CHR ''/'' clean) \<longrightarrow>
           inside wd temp_dir p
         \<and> (locate w temp_dir = Some staged \<and> locate w p = Some l \<longrightarrow> prefix staged l))"
    unfolding Let_def rel_path_def[symmetric] clean_def[symmetric] by blast
qed

theorem C1_write_path_sanitized_witness:
  "target_file_path ''temp_extract_0'' ''widgets-v2/src/lib/'' ''widgets-v2/src/lib/sub/''
     = Some ''temp_extract_0/sub''
   \<and> sanitize_path ''sub/'' = ''sub''
   \<and> \<not> startswith ''sub'' ''/'' \<and> ''..'' \<notin> set (str_split CHR ''/'' ''sub'')
   \<and> inside [''home'', ''u''] ''temp_extract_0'' ''temp_extract_0/sub''
   \<and> locate (snd (os_makedirs (example_world online) ''temp_extract_0'')) ''temp_extract_0''
       = Some [''home'', ''u'', ''temp_extract_0'']
   \<and> locate (snd (os_makedirs (example_world online) ''temp_extract_0'')) ''temp_extract_0/sub''
       = Some [''home'', ''u'', ''temp_extract_0'', ''sub'']
   \<and> prefix [''home'', ''u'', ''temp_extract_0''] [''home'', ''u'', ''temp_extract_0'', ''sub'']"
proof -
  let ?w = "snd (os_makedirs (example_world online) ''temp_extract_0'')"
  have t: "target_file_path ''temp_extract_0'' ''widgets-v2/src/lib/'' ''widgets-v2/src/lib/sub/''
     = Some ''temp_extract_0/sub''"
    by (simp add: target_file_path_def sanitize_path_def rstrip_def path_join_def)
  have s: "sanitize_path ''sub/'' = ''sub''"
    by (simp add: sanitize_path_def rstrip_def)
  have h: "\<not> startswith ''sub'' ''/''" "''..'' \<notin> set (str_split CHR ''/'' ''sub'')"
    by simp_all
  have l1: "locate ?w ''temp_extract_0'' = Some [''home'', ''u'', ''temp_extract_0'']"
    by code_simp
  have l2: "locate ?w ''temp_extract_0/sub'' = Some [''home'', ''u'', ''temp_extract_0'', ''sub'']"
    by code_simp
  from C1_write_path_sanitized[where temp_dir = "''temp_extract_0''" and pfx = "''widgets-v2/src/lib/''"
      and member = "''widgets-v2/src/lib/sub/''" and p = "''temp_extract_0/sub''" and wd = "[''home'', ''u'']"
      and w = ?w and staged = "[''home'', ''u'', ''temp_extract_0'']"
      and l = "[''home'', ''u'', ''temp_extract_0'', ''sub'']"] t
  have "inside [''home'', ''u''] ''temp_extract_0'' ''temp_extract_0/sub''
        \<and> prefix [''home'', ''u'', ''temp_extract_0''] [''home'', ''u'', ''temp_extract_0'', ''sub'']"
    using h l1 l2 by (simp add: Let_def s path_join_def)
  with t s h l1 l2 show ?thesis by blast
qed

text \<open>
  Claim C1 as stated fails: a member whose relative path has a \<^verbatim>\<open>..\<close> segment, and one
  whose relative path starts with a slash, are selected by the Archive Filter, keep
  their relative path through \<^verbatim>\<open>sanitize_path\<close>, and get a write path outside the staging
  directory.
\<close>

theorem C1_traversal_counterexample:
  "target_files (folder_prefix ''repo'' ''main'' [])
       [''repo-main/'', ''repo-main/../evil.txt'', ''repo-main//etc/passwd'']
     = [''repo-main/../evil.txt'', ''repo-main//etc/passwd'']
   \<and> target_file_path ''temp_extract_0'' (folder_prefix ''repo'' ''main'' []) ''repo-main/../evil.txt''
       = Some ''temp_extract_0/../evil.txt''
   \<and> resolve [''home'', ''u''] ''temp_extract_0'' = [''home'', ''u'', ''temp_extract_0'']
   \<and> resolve [''home'', ''u''] ''temp_extract_0/../evil.txt'' = [''home'', ''u'', ''evil.txt'']
   \<and> \<not> inside [''home'', ''u''] ''temp_extract_0'' ''temp_extract_0/../evil.txt''
   \<and> target_file_path ''temp_extract_0'' (folder_prefix ''repo'' ''main'' []) ''repo-main//etc/passwd''
       = Some ''/etc/passwd''
   \<and> resolve [''home'', ''u''] ''/etc/passwd'' = [''etc'', ''passwd'']
   \<and> \<not> inside [''home'', ''u''] ''temp_extract_0'' ''/etc/passwd''"
  by (simp add: folder_prefix_def repo_dir_prefix_def target_file_path_def sanitize_path_def
      rstrip_def path_join_def resolve_def inside_def)

subsection \<open>String methods\<close>

lemma startswith_prefix: "startswith s p = prefix p s"
  by (induction s p rule: startswith.induct) auto

lemma startswith_append: "startswith s p \<longleftrightarrow> (\<exists>r. s = p @ r)"
  by (auto simp: startswith_prefix prefix_def)

subsection \<open>Archive Filter\<close>

lemma target_files_filter:
  "target_files pfx names = filter (\<lambda>f. startswith f pfx \<and> f \<noteq> pfx) names"
  by (induction names) simp_all

lemma proper_extension: "(startswith f pfx \<and> f \<noteq> pfx) \<longleftrightarrow> (\<exists>r. r \<noteq> [] \<and> f = pfx @ r)"
  by (auto simp: startswith_append)

text \<open>
  Claim C4. The selection of the Archive Filter is exactly the list of the members whose
  path is the prefix \<open>{repo}-{revision}/{subpath}/\<close> (or \<open>{repo}-{revision}/\<close> when the
  subpath is empty) followed by a non-empty rest, each as often as the archive lists it
  and in the archive's order: it is the archive's name list with the other names
  deleted, nothing is reordered.
\<close>

theorem C4_selection_exact:
  "target_files (folder_prefix repo branch folder_path) names =
     filter (\<lambda>f. \<exists>r. r \<noteq> [] \<and>
                f = repo @ ''-'' @ branch @ ''/'' @ (if folder_path = [] then [] else folder_path @ ''/'') @ r)
       names
   \<and> subseq (target_files (folder_prefix repo branch folder_path) names) names"
proof -
  let ?pfx = "folder_prefix repo branch folder_path"
  have pfx: "?pfx = repo @ ''-'' @ branch @ ''/'' @ (if folder_path = [] then [] else folder_path @ ''/'')"
    by (simp add: folder_prefix_def repo_dir_prefix_def)
  have "target_files ?pfx names = filter (\<lambda>f. \<exists>r. r \<noteq> [] \<and> f = ?pfx @ r) names"
    by (simp add: target_files_filter proper_extension)
  moreover have "subseq (target_files ?pfx names) names"
    by (simp add: target_files_filter)
  ultimately show ?thesis
    by (simp add: pfx)
qed

text \<open>
  Claim C5. The Archive Filter raises the "folder not found" exception if and only if
  the selection for the prefix is empty, and it raises nothing as soon as one member
  path starts with the prefix and differs from it.
\<close>

theorem C5_not_found_iff_empty:
  "((\<exists>e. archive_filter repo branch folder_path names = Inl e) \<longleftrightarrow>
      target_files (folder_prefix repo branch folder_path) names = [])
   \<and> (archive_filter repo branch folder_path names = Inl (FolderNotFound folder_path) \<longleftrightarrow>
      \<not> (\<exists>f \<in> set names. startswith f (folder_prefix repo branch folder_path)
                              \<and> f \<noteq> folder_prefix repo branch folder_path))
   \<and> (archive_filter repo branch folder_path names
        = Inr (target_files (folder_prefix repo branch folder_path) names) \<longleftrightarrow>
      (\<exists>f \<in> set names. startswith f (folder_prefix repo branch folder_path)
                           \<and> f \<noteq> folder_prefix repo branch folder_path))"
  by (auto simp: archive_filter_def Let_def target_files_filter filter_empty_conv)

subsection \<open>The filesystem and what the program leaves alone\<close>

lemma node_at_rm_self: "p \<noteq> [] \<Longrightarrow> node_at (rm_node p t) p = None"
  by (induction p t rule: rm_node.induct) (auto simp: delete_conv update_conv split: option.splits)

lemma is_dir_rm_self: "p \<noteq> [] \<Longrightarrow> \<not> is_dir (rm_node p t) p"
  by (simp add: is_dir_def node_at_rm_self)

lemma same_env_refl: "same_env w w"
  by (simp add: same_env_def)

lemma same_env_trans: "same_env w w1 \<Longrightarrow> same_env w1 w2 \<Longrightarrow> same_env w w2"
  by (simp add: same_env_def)

lemma same_env_warn: "same_env w (warn w ev)"
  by (simp add: same_env_def warn_def)

lemma same_env_fs: "same_env w (w\<lparr>fs := t\<rparr>)"
  by (simp add: same_env_def)

lemma same_env_mkdir: "same_env w (snd (os_mkdir w n))"
  by (simp add: os_mkdir_def same_env_def split: option.splits)

lemma same_env_mkdir_last: "same_env w (snd (mkdir_last ok w n))"
  using same_env_mkdir[of w n]
  by (cases "os_mkdir w n") (simp add: mkdir_last_def split: option.splits)

lemma same_env_makedirs_rec: "same_env w (snd (makedirs ok w n))"
proof (induction ok w n rule: makedirs.induct)
  case (1 ok w n)
  show ?case
  proof (cases "fst (makedirs_split n) \<noteq> [] \<and> snd (makedirs_split n) \<noteq> []
         \<and> \<not> os_path_exists w (fst (makedirs_split n))")
    case False
    then have "makedirs ok w n = mkdir_last ok w n"
      by (subst makedirs.simps) auto
    then show ?thesis by (simp add: same_env_mkdir_last)
  next
    case True
    obtain r w1 where h: "makedirs ok w (fst (makedirs_split n)) = (r, w1)"
      by (cases "makedirs ok w (fst (makedirs_split n))")
    have e1: "same_env w w1" using 1[OF True] h by simp
    have e2: "same_env w (snd (mkdir_last ok w1 n))"
      by (rule same_env_trans[OF e1 same_env_mkdir_last])
    have "makedirs ok w n = (r, w1) \<or> makedirs ok w n = (None, w1)
          \<or> makedirs ok w n = mkdir_last ok w1 n"
      using True h by (subst (1 2 3) makedirs.simps) (auto split: option.splits)
    then show ?thesis using e1 e2 by auto
  qed
qed

lemma same_env_makedirs: "same_env w (snd (os_makedirs w n))"
  by (simp add: os_makedirs_def same_env_refl same_env_makedirs_rec)

lemma same_env_open_wb: "same_env w (snd (open_wb w p))"
  by (auto simp: open_wb_def same_env_def split: option.splits)

lemma same_env_file_write: "same_env w (file_write w p d)"
  by (auto simp: file_write_def same_env_def split: option.splits)

lemma same_env_rmtree: "same_env w (shutil_rmtree_ignore_errors w p)"
  by (auto simp: shutil_rmtree_ignore_errors_def same_env_def split: option.splits)

lemma same_env_unlink: "same_env w (snd (os_unlink w p))"
  by (auto simp: os_unlink_def same_env_def split: option.splits node.splits)

lemma same_env_rename: "same_env w (snd (os_rename w s d))"
  by (auto simp: os_rename_def same_env_def split: option.splits)

lemma same_env_copytree: "same_env w (snd (copytree_rmtree w s d))"
proof -
  obtain r w1 where h: "makedirs False w d = (r, w1)" by (cases "makedirs False w d")
  have e1: "same_env w w1" using same_env_makedirs_rec[of w False d] h by simp
  have "snd (copytree_rmtree w s d) = w1 \<or> (\<exists>t. snd (copytree_rmtree w s d) = w1\<lparr>fs := t\<rparr>)"
    using h by (auto simp: copytree_rmtree_def split: option.splits)
  then show ?thesis using e1 same_env_trans[OF e1 same_env_fs] by auto
qed

lemma same_env_move: "same_env w (snd (shutil_move w s d))"
proof -
  define real_dst where
    "real_dst = (if os_path_isdir w d then path_join d (basename (rstrip ''/'' s)) else d)"
  obtain r w1 where rn: "os_rename w s real_dst = (r, w1)" by (cases "os_rename w s real_dst")
  have e1: "same_env w w1" using same_env_rename[of w s real_dst] rn by simp
  have "snd (shutil_move w s d) = w \<or> snd (shutil_move w s d) = w1
        \<or> snd (shutil_move w s d) = snd (copytree_rmtree w s real_dst)"
    unfolding shutil_move_def Let_def real_dst_def[symmetric]
    using rn by (cases r) simp_all
  then show ?thesis
    using same_env_refl[of w] e1 same_env_copytree[of w s real_dst] by auto
qed

lemma same_env_extract_member: "same_env w (extract_member z t pfx w f)"
proof (cases "target_file_path t pfx f")
  case None
  then show ?thesis by (simp add: extract_member_def same_env_refl)
next
  case (Some target)
  obtain r1 w1 where m: "os_makedirs w (dirname target) = (r1, w1)"
    by (cases "os_makedirs w (dirname target)")
  have e1: "same_env w w1" using same_env_makedirs[of w "dirname target"] m by simp
  obtain r2 w2 where opn: "open_wb w1 target = (r2, w2)" by (cases "open_wb w1 target")
  have e2: "same_env w w2"
    using same_env_trans[OF e1 same_env_open_wb[of w1 target]] opn by simp
  have "extract_member z t pfx w f \<in>
          {warn w1 (ExtractWarning f (the r1)), warn w1 (ExtractWarning f OtherException),
           warn w2 (ExtractWarning f (the r2)), warn w2 (ExtractWarning f BadZipFile)}
        \<or> (\<exists>d. extract_member z t pfx w f = file_write w2 target d)"
    using Some m opn
    by (auto simp: extract_member_def split: option.splits member_data.splits)
  then show ?thesis
    using same_env_trans[OF e1 same_env_warn] same_env_trans[OF e2 same_env_warn]
      same_env_trans[OF e2 same_env_file_write]
    by auto
qed

lemma same_env_extract_all: "same_env w (extract_all z t pfx w files)"
proof (induction files arbitrary: w)
  case Nil
  then show ?case by (simp add: same_env_refl)
next
  case (Cons f files)
  show ?case using same_env_trans[OF same_env_extract_member Cons] by simp
qed

lemma same_env_move_item: "same_env w (snd (move_item t out w item))"
proof -
  define src where "src = path_join t item"
  define dst where "dst = path_join out item"
  define removed where "removed = (if os_path_exists w dst
                     then (if os_path_isdir w dst
                           then (None, shutil_rmtree_ignore_errors w dst)
                           else os_unlink w dst)
                     else (None, w))"
  have e1: "same_env w (snd removed)"
    by (simp add: removed_def same_env_refl same_env_rmtree same_env_unlink)
  obtain r1 w1 where rm: "removed = (r1, w1)" by (cases removed)
  obtain r2 w2 where mv: "shutil_move w1 src dst = (r2, w2)" by (cases "shutil_move w1 src dst")
  have e1': "same_env w w1" using e1 rm by simp
  have e2: "same_env w w2" using same_env_trans[OF e1' same_env_move[of w1 src dst]] mv by simp
  have "snd (move_item t out w item) = w1 \<or> snd (move_item t out w item) = w2
        \<or> (\<exists>ev. snd (move_item t out w item) = warn w2 ev)"
    using rm mv
    by (auto simp: move_item_def Let_def src_def[symmetric] dst_def[symmetric] removed_def[symmetric]
        split: option.splits)
  then show ?thesis using e1' e2 same_env_trans[OF e2 same_env_warn] by auto
qed


lemma same_env_move_all: "same_env w (snd (move_all t out w items))"
proof (induction items arbitrary: w)
  case Nil
  then show ?case by (simp add: same_env_refl)
next
  case (Cons item items)
  obtain r w1 where m: "move_item t out w item = (r, w1)" by (cases "move_item t out w item")
  have e1: "same_env w w1" using same_env_move_item[of w t out item] m by simp
  show ?case
  proof (cases r)
    case (Inl e)
    then show ?thesis using m e1 by simp
  next
    case (Inr u)
    then show ?thesis using m same_env_trans[OF e1 Cons[of w1]] by simp
  qed
qed

lemma same_env_promote: "same_env w (snd (promote t out w))"
proof -
  obtain r1 w1 where m: "os_makedirs w out = (r1, w1)" by (cases "os_makedirs w out")
  have e1: "same_env w w1" using same_env_makedirs[of w out] m by simp
  have "snd (promote t out w) = w1 \<or> (\<exists>items. snd (promote t out w) = snd (move_all t out w1 items))"
    using m by (auto simp: promote_def split: option.splits sum.splits)
  then show ?thesis using e1 same_env_trans[OF e1 same_env_move_all] by auto
qed

lemma same_env_materialize_body: "same_env w (snd (materialize_body z files pfx out t w))"
proof -
  obtain r1 w1 where m: "os_makedirs w t = (r1, w1)" by (cases "os_makedirs w t")
  have e1: "same_env w w1" using same_env_makedirs[of w t] m by simp
  have "snd (materialize_body z files pfx out t w) = w1
        \<or> snd (materialize_body z files pfx out t w) = snd (promote t out (extract_all z t pfx w1 files))"
    using m by (auto simp: materialize_body_def split: option.splits)
  then show ?thesis
    using e1 same_env_trans[OF e1 same_env_trans[OF same_env_extract_all same_env_promote]] by auto
qed

subsection \<open>Lookups after a change of the tree\<close>

lemma node_at_rm_other:
  "\<not> prefix p q \<Longrightarrow> \<not> prefix q p \<Longrightarrow> node_at (rm_node p t) q = node_at t q"
proof (induction p t arbitrary: q rule: rm_node.induct)
  case (1 t)
  then show ?case by simp
next
  case (2 s p v)
  then show ?case by simp
next
  case (3 s p es)
  then obtain s' q' where q: "q = s' # q'" by (cases q) auto
  show ?case
  proof (cases "s' = s")
    case False
    then show ?thesis by (simp add: q delete_conv update_conv split: option.splits)
  next
    case True
    with 3(2,3) q have pq: "\<not> prefix p q'" "\<not> prefix q' p" by auto
    then have "p \<noteq> []" by auto
    then show ?thesis using True q 3(1)[OF _ _ pq] by (simp add: update_conv split: option.splits)
  qed
qed

lemma node_at_put_other:
  "\<not> prefix p q \<Longrightarrow> \<not> prefix q p \<Longrightarrow> node_at (put_node p v t) q = node_at t q"
proof (induction p v t arbitrary: q rule: put_node.induct)
  case (1 v t)
  then show ?case by simp
next
  case (2 s p v d)
  then show ?case by simp
next
  case (3 s p v es)
  then obtain s' q' where q: "q = s' # q'" by (cases q) auto
  show ?case
  proof (cases "s' = s")
    case False
    then show ?thesis by (simp add: q update_conv split: option.splits)
  next
    case True
    with 3(2,3) q have pq: "\<not> prefix p q'" "\<not> prefix q' p" by auto
    then have "p \<noteq> []" by auto
    then show ?thesis using True q 3(1)[OF _ _ pq] by (simp add: update_conv split: option.splits)
  qed
qed

lemma node_at_snoc:
  "node_at t (p @ [s]) = (case node_at t p of Some (Dir es) \<Rightarrow> map_of es s | _ \<Rightarrow> None)"
  by (induction t p rule: node_at.induct) (auto split: option.splits node.splits)

lemma node_at_put_self:
  "p \<noteq> [] \<Longrightarrow> is_dir t (butlast p) \<Longrightarrow> node_at (put_node p v t) p = Some v"
proof (induction p v t rule: put_node.induct)
  case (1 v t)
  then show ?case by simp
next
  case (2 s p v d)
  then show ?case by (cases p) (simp_all add: is_dir_def)
next
  case (3 s p v es)
  show ?case
  proof (cases "p = []")
    case True
    then show ?thesis by (simp add: update_conv)
  next
    case False
    with 3(3) obtain c where c: "map_of es s = Some c" "is_dir c (butlast p)"
      by (auto simp: is_dir_def split: option.splits)
    then show ?thesis using False 3(1)[OF False c(1) False c(2)] by (simp add: update_conv)
  qed
qed

lemma is_dir_rm:
  "\<not> prefix p q \<Longrightarrow> is_dir (rm_node p t) q = is_dir t q"
proof (induction p t arbitrary: q rule: rm_node.induct)
  case (1 t)
  then show ?case by simp
next
  case (2 s p d)
  then show ?case by simp
next
  case (3 s p es)
  show ?case
  proof (cases q)
    case Nil
    then show ?thesis by (simp add: is_dir_def split: option.splits)
  next
    case (Cons s' q')
    show ?thesis
    proof (cases "s' = s")
      case False
      then show ?thesis by (simp add: Cons is_dir_def delete_conv update_conv split: option.splits)
    next
      case True
      with 3(2) Cons have pq: "\<not> prefix p q'" by auto
      then have ne: "p \<noteq> []" by auto
      show ?thesis
      proof (cases "map_of es s")
        case None
        then show ?thesis using ne by simp
      next
        case (Some c)
        have "is_dir (rm_node p c) q' = is_dir c q'" by (rule 3(1)[OF ne Some pq])
        then show ?thesis using ne Some True Cons by (simp add: is_dir_def update_conv)
      qed
    qed
  qed
qed

lemma is_dir_put:
  "\<not> prefix p q \<Longrightarrow> is_dir (put_node p v t) q = is_dir t q"
proof (induction p v t arbitrary: q rule: put_node.induct)
  case (1 v t)
  then show ?case by simp
next
  case (2 s p v d)
  then show ?case by simp
next
  case (3 s p v es)
  show ?case
  proof (cases q)
    case Nil
    then show ?thesis by (simp add: is_dir_def split: option.splits)
  next
    case (Cons s' q')
    show ?thesis
    proof (cases "s' = s")
      case False
      then show ?thesis by (simp add: Cons is_dir_def update_conv split: option.splits)
    next
      case True
      with 3(2) Cons have pq: "\<not> prefix p q'" by auto
      then have ne: "p \<noteq> []" by auto
      show ?thesis
      proof (cases "map_of es s")
        case None
        then show ?thesis using ne by simp
      next
        case (Some c)
        have "is_dir (put_node p v c) q' = is_dir c q'" by (rule 3(1)[OF ne Some pq])
        then show ?thesis using ne Some True Cons by (simp add: is_dir_def update_conv)
      qed
    qed
  qed
qed

subsection \<open>Staged Materializer: the staging directory\<close>

lemma str_nat_digits: "set (str_nat n) \<subseteq> set ''0123456789''"
proof (induction n rule: str_nat.induct)
  case (1 n)
  have d: "''0123456789'' ! k \<in> set ''0123456789''" if "k < 10" for k
    using that by (intro nth_mem) simp
  show ?case
  proof (cases "n < 10")
    case True
    then show ?thesis using d[of n] by (subst str_nat.simps) simp
  next
    case False
    have "n mod 10 < 10" by simp
    then show ?thesis using False 1 d[of "n mod 10"] by (subst str_nat.simps) simp
  qed
qed

lemma str_nat_no_slash: "CHR ''/'' \<notin> set (str_nat n)"
proof
  assume "CHR ''/'' \<in> set (str_nat n)"
  then have "CHR ''/'' \<in> set ''0123456789''"
    by (rule subsetD[OF str_nat_digits])
  then show False by simp
qed

lemma staging_name_valid: "valid_name (''temp_extract_'' @ str_int i)"
proof -
  have "CHR ''/'' \<notin> set (str_int i)"
    by (simp add: str_int_def str_nat_no_slash)
  then show ?thesis by (simp add: valid_name_def)
qed

lemma resolve_staging_dir:
  "resolve wd (staging_dir w output_dir)
     = resolve wd (dirname output_dir) @ [''temp_extract_'' @ str_int (now w)]"
  unfolding staging_dir_def by (rule resolve_join_name[OF staging_name_valid])

lemma cleanup_removes:
  assumes ne: "resolve (cwd w) temp_dir \<noteq> []" and nf: "\<not> faults w (Rmtree temp_dir)"
  shows "\<not> os_path_isdir (cleanup temp_dir w) temp_dir"
proof (cases "locate w temp_dir")
  case None
  then show ?thesis by (simp add: cleanup_def os_path_exists_def os_path_isdir_def)
next
  case (Some l)
  have l: "l = resolve (cwd w) temp_dir" by (rule locate_resolve[OF Some])
  with ne have lne: "l \<noteq> []" by simp
  show ?thesis
  proof (cases "is_dir (fs w) l")
    case False
    then have "cleanup temp_dir w = w"
      using Some nf by (simp add: cleanup_def shutil_rmtree_ignore_errors_def)
    then show ?thesis using Some False by (simp add: os_path_isdir_def)
  next
    case True
    then have ex: "os_path_exists w temp_dir"
      using Some by (auto simp: os_path_exists_def is_dir_def split: option.splits)
    have c: "cleanup temp_dir w = w\<lparr>fs := rm_node l (fs w)\<rparr>"
      using Some nf True lne ex by (simp add: cleanup_def shutil_rmtree_ignore_errors_def)
    show ?thesis
    proof (cases "locate (w\<lparr>fs := rm_node l (fs w)\<rparr>) temp_dir")
      case None
      then show ?thesis by (simp add: c os_path_isdir_def)
    next
      case (Some l')
      have "l' = l" using locate_resolve[OF Some] l by simp
      then show ?thesis using Some lne by (simp add: c os_path_isdir_def is_dir_rm_self)
    qed
  qed
qed

lemma cleanup_faulted: "faults w (Rmtree temp_dir) \<Longrightarrow> cleanup temp_dir w = w"
  by (simp add: cleanup_def shutil_rmtree_ignore_errors_def)

text \<open>
  Claim C7, as the code has it. Whatever the \<^verbatim>\<open>try\<close> block of the Materializer does (it
  completes or it raises, there is no early return), the \<^verbatim>\<open>finally\<close> block runs on the
  world it leaves: the result of the Materializer is the result of the block, so nothing
  the removal does is propagated. When the environment makes the removal fail, nothing is
  raised and nothing changes, so a staging directory that exists stays; when it does not
  make it fail, no directory is left at the staging path, after a run that succeeds and
  after one that fails.
\<close>

theorem C7_staging_removed:
  "extract_to_temp_and_move zip_ref files pfx output_dir w = (result, w') \<longrightarrow>
     (let temp_dir = staging_dir w output_dir;
          body = materialize_body zip_ref files pfx output_dir temp_dir w
      in result = fst body
       \<and> (faults w (Rmtree temp_dir) \<longrightarrow> w' = snd body)
       \<and> (\<not> faults w (Rmtree temp_dir) \<longrightarrow> \<not> os_path_isdir w' temp_dir))"
proof
  assume a: "extract_to_temp_and_move zip_ref files pfx output_dir w = (result, w')"
  define temp_dir where "temp_dir = staging_dir w output_dir"
  define body where "body = materialize_body zip_ref files pfx output_dir temp_dir w"
  from a have r: "result = fst body" and w': "w' = cleanup temp_dir (snd body)"
    by (simp_all add: extract_to_temp_and_move_def Let_def temp_dir_def body_def split: prod.splits)
  have env: "same_env w (snd body)"
    unfolding body_def by (rule same_env_materialize_body)
  have ne: "resolve (cwd (snd body)) temp_dir \<noteq> []"
    unfolding temp_dir_def resolve_staging_dir by simp
  have f: "faults (snd body) = faults w" using env by (simp add: same_env_def)
  have 1: "faults w (Rmtree temp_dir) \<longrightarrow> w' = snd body"
    using cleanup_faulted[of "snd body" temp_dir] by (simp add: w' f)
  have 2: "\<not> faults w (Rmtree temp_dir) \<longrightarrow> \<not> os_path_isdir w' temp_dir"
    using cleanup_removes[OF ne] by (simp add: w' f)
  from r 1 2 show "let temp_dir = staging_dir w output_dir;
          body = materialize_body zip_ref files pfx output_dir temp_dir w
      in result = fst body
       \<and> (faults w (Rmtree temp_dir) \<longrightarrow> w' = snd body)
       \<and> (\<not> faults w (Rmtree temp_dir) \<longrightarrow> \<not> os_path_isdir w' temp_dir)"
    unfolding Let_def temp_dir_def[symmetric] body_def[symmetric] by blast
qed

theorem C7_staging_removed_witness:
  "staging_dir (example_world online) ''lib'' = ''temp_extract_0''
   \<and> fst (extract_to_temp_and_move example_zip example_files ''widgets-v2/src/lib/'' ''lib''
          (example_world online)) = Inr ()
   \<and> \<not> os_path_isdir (snd (extract_to_temp_and_move example_zip example_files ''widgets-v2/src/lib/''
          ''lib'' (example_world online))) ''temp_extract_0''
   \<and> staging_dir (example_world online) ''lib/old.txt'' = ''lib/temp_extract_0''
   \<and> fst (extract_to_temp_and_move example_zip example_files ''widgets-v2/src/lib/'' ''lib/old.txt''
          (example_world online)) = Inl FileExistsError
   \<and> \<not> os_path_isdir (snd (extract_to_temp_and_move example_zip example_files ''widgets-v2/src/lib/''
          ''lib/old.txt'' (example_world online))) ''lib/temp_extract_0''"
proof -
  let ?w = "example_world online"
  let ?ok = "extract_to_temp_and_move example_zip example_files ''widgets-v2/src/lib/'' ''lib'' ?w"
  let ?bad = "extract_to_temp_and_move example_zip example_files ''widgets-v2/src/lib/'' ''lib/old.txt'' ?w"
  have s1: "staging_dir ?w ''lib'' = ''temp_extract_0''" by code_simp
  have s2: "staging_dir ?w ''lib/old.txt'' = ''lib/temp_extract_0''" by code_simp
  have nf: "\<not> faults ?w c" for c by (simp add: example_world_def)
  have r1: "fst ?ok = Inr ()" by code_simp
  have r2: "fst ?bad = Inl FileExistsError" by code_simp
  have a1: "\<not> os_path_isdir (snd ?ok) (staging_dir ?w ''lib'')"
    using C7_staging_removed[where zip_ref = example_zip and files = example_files
        and pfx = "''widgets-v2/src/lib/''" and output_dir = "''lib''" and w = ?w
        and result = "fst ?ok" and w' = "snd ?ok"] nf
    by (simp add: Let_def)
  have a2: "\<not> os_path_isdir (snd ?bad) (staging_dir ?w ''lib/old.txt'')"
    using C7_staging_removed[where zip_ref = example_zip and files = example_files
        and pfx = "''widgets-v2/src/lib/''" and output_dir = "''lib/old.txt''" and w = ?w
        and result = "fst ?bad" and w' = "snd ?bad"] nf
    by (simp add: Let_def)
  from s1 s2 r1 r2 a1 a2 show ?thesis by (simp only: simp_thms)
qed


text \<open>
  Claim C7 as stated fails: when the removal of the staging directory fails (here the
  environment refuses \<^verbatim>\<open>shutil.rmtree\<close> on it), the error is ignored, the run succeeds,
  and the staging directory is still there.
\<close>

theorem C7_removal_fault_counterexample:
  "fst (extract_to_temp_and_move example_zip example_files ''widgets-v2/src/lib/'' ''lib''
          ((example_world online)\<lparr>faults := (\<lambda>c. c = Rmtree ''temp_extract_0'')\<rparr>)) = Inr ()
   \<and> os_path_isdir (snd (extract_to_temp_and_move example_zip example_files ''widgets-v2/src/lib/''
          ''lib'' ((example_world online)\<lparr>faults := (\<lambda>c. c = Rmtree ''temp_extract_0'')\<rparr>)))
        ''temp_extract_0''"
  by code_simp

subsection \<open>Orchestrator\<close>

lemma retry_loop_frame:
  fixes w :: world
  shows "fs (snd (retry_loop url retries b c w)) = fs w
       \<and> cwd (snd (retry_loop url retries b c w)) = cwd w
       \<and> faults (snd (retry_loop url retries b c w)) = faults w
       \<and> now (snd (retry_loop url retries b c w)) = now w
       \<and> stdout (snd (retry_loop url retries b c w)) = stdout w
       \<and> responses (snd (retry_loop url retries b c w)) = responses w"
proof (induction url retries b c w rule: retry_loop.induct)
  case (1 url retries b c w)
  show ?case
  proof (cases "c \<le> retries")
    case False
    then show ?thesis by (subst (1 2 3 4 5 6) retry_loop.simps) simp
  next
    case le: True
    show ?thesis
    proof (cases "responses w (length (requests w)) url")
      case (Payload chunks)
      then show ?thesis using le by (subst (1 2 3 4 5 6) retry_loop.simps) (simp add: Let_def)
    next
      case (Fails e)
      show ?thesis
      proof (cases "network_class e \<and> c + 1 \<le> retries")
        case False
        then show ?thesis using le Fails
          by (subst (1 2 3 4 5 6) retry_loop.simps) (auto simp: Let_def)
      next
        case True
        show ?thesis
        proof (cases "float_pow (libm_pow w) b (nat (c + 1))")
          case (Inl e')
          then show ?thesis using le Fails True
            by (subst (1 2 3 4 5 6) retry_loop.simps) (simp add: Let_def)
        next
          case (Inr wait_time)
          show ?thesis
          proof (cases "time_sleep (sleep_overflow w) wait_time")
            case (Some e')
            then show ?thesis using le Fails True Inr
              by (subst (1 2 3 4 5 6) retry_loop.simps) (simp add: Let_def)
          next
            case None
            have ih: "fs (snd (retry_loop url retries b (c + 1)
                        (w\<lparr>requests := requests w @ [url], sleeps := sleeps w @ [wait_time]\<rparr>))) = fs w
              \<and> cwd (snd (retry_loop url retries b (c + 1)
                        (w\<lparr>requests := requests w @ [url], sleeps := sleeps w @ [wait_time]\<rparr>))) = cwd w
              \<and> faults (snd (retry_loop url retries b (c + 1)
                        (w\<lparr>requests := requests w @ [url], sleeps := sleeps w @ [wait_time]\<rparr>))) = faults w
              \<and> now (snd (retry_loop url retries b (c + 1)
                        (w\<lparr>requests := requests w @ [url], sleeps := sleeps w @ [wait_time]\<rparr>))) = now w
              \<and> stdout (snd (retry_loop url retries b (c + 1)
                        (w\<lparr>requests := requests w @ [url], sleeps := sleeps w @ [wait_time]\<rparr>))) = stdout w
              \<and> responses (snd (retry_loop url retries b (c + 1)
                        (w\<lparr>requests := requests w @ [url], sleeps := sleeps w @ [wait_time]\<rparr>))) = responses w"
              using "1.IH"[OF le refl Fails _ refl _ Inr None] True by simp
            show ?thesis using le Fails True Inr None ih
              by (subst (1 2 3 4 5 6) retry_loop.simps) (simp add: Let_def)
          qed
        qed
      qed
    qed
  qed
qed

lemma download_frame:
  fixes w :: world
  assumes "download_with_progress url retries b w = (r, w')"
  shows "fs w' = fs w" "cwd w' = cwd w" "faults w' = faults w" "now w' = now w" "stdout w' = stdout w"
  using retry_loop_frame[of url retries b 0 w] assms
  by (simp_all add: download_with_progress_def)

lemma download_exhausted_default:
  assumes "\<forall>k<4. \<exists>e. responses w (length (requests w) + k) u = Fails e \<and> network_class e"
  shows "\<exists>e. network_class e \<and> download_with_progress u 3 (3/2) w =
           (Inl e, w\<lparr>requests := requests w @ replicate 4 u, sleeps := sleeps w @ [3/2, 9/4, 27/8]\<rparr>)"
proof -
  from assms have "\<forall>k. \<exists>e. k < 4 \<longrightarrow> responses w (length (requests w) + k) u = Fails e \<and> network_class e"
    by blast
  then obtain f where f: "\<forall>k. k < 4 \<longrightarrow> responses w (length (requests w) + k) u = Fails (f k) \<and> network_class (f k)"
    by (rule choice[THEN exE])
  have "retry_loop u 3 (3/2) (int 0) w =
     (Inl (f 3),
      w\<lparr>requests := requests w @ replicate (Suc 3) u,
        sleeps := sleeps w @ map (\<lambda>k. (3/2) ^ k) [Suc 0 ..< Suc (0 + 3)]\<rparr>)"
  proof (rule retry_loop_exhausted)
    show "int 0 + int 3 = 3" by simp
    show "\<forall>k\<le>3. responses w (length (requests w) + k) u = Fails (f k) \<and> network_class (f k)"
      using f by simp
    show "\<forall>k. 0 < k \<and> k \<le> 0 + 3 \<longrightarrow>
           float_pow (libm_pow w) (3/2) k = Inr ((3/2) ^ k)
           \<and> time_sleep (sleep_overflow w) ((3/2) ^ k) = None"
      using default_waits by simp
  qed
  moreover have "map (\<lambda>k. (3/2 :: rat) ^ k) [Suc 0 ..< Suc (0 + 3)] = [3/2, 9/4, 27/8]"
    by (simp add: upt_rec power2_eq_square power3_eq_cube numeral_3_eq_3)
  moreover have "replicate (Suc 3) u = replicate 4 u"
    by (simp add: numeral_eq_Suc)
  moreover have "network_class (f 3)" using f by simp
  ultimately show ?thesis
    by (auto simp: download_with_progress_def)
qed

text \<open>
  Claim C2. For a locator the parser accepts: if the four attempts of the Fetcher on the
  primary URL (the first and three retries) fail with a network-class exception, the
  Orchestrator calls the Fetcher once more, on the secondary URL built from the same
  owner, repository and revision, with the same three retries and factor 1.5. If that
  call raises as well, the run returns \<open>False\<close>, and neither the filesystem nor the
  warnings have changed; when its four attempts fail with a network-class exception, the
  run has made exactly four requests to each URL and nothing else.
\<close>

theorem C2_fallback_once:
  "parse_github_folder_url url = Inr (owner, repo, branch, folder_path)
   \<and> (\<forall>k<4. \<exists>e. responses w (length (requests w) + k) (primary_url owner repo branch) = Fails e
                  \<and> network_class e) \<longrightarrow>
     (let w1 = w\<lparr>requests := requests w @ replicate 4 (primary_url owner repo branch),
                 sleeps := sleeps w @ [3/2, 9/4, 27/8]\<rparr>
      in fetch_archive owner repo branch w
           = download_with_progress (secondary_url owner repo branch) 3 (3/2) w1
       \<and> (\<forall>e w2. download_with_progress (secondary_url owner repo branch) 3 (3/2) w1 = (Inl e, w2) \<longrightarrow>
             download_github_folder unzip url output_dir w = (False, w2)
             \<and> fs w2 = fs w \<and> stdout w2 = stdout w)
       \<and> ((\<forall>k<4. \<exists>e. responses w (length (requests w) + 4 + k) (secondary_url owner repo branch) = Fails e
                      \<and> network_class e) \<longrightarrow>
             download_github_folder unzip url output_dir w =
               (False, w\<lparr>requests := requests w @ replicate 4 (primary_url owner repo branch)
                                       @ replicate 4 (secondary_url owner repo branch),
                          sleeps := sleeps w @ [3/2, 9/4, 27/8, 3/2, 9/4, 27/8]\<rparr>)))"
proof
  assume a: "parse_github_folder_url url = Inr (owner, repo, branch, folder_path)
   \<and> (\<forall>k<4. \<exists>e. responses w (length (requests w) + k) (primary_url owner repo branch) = Fails e
                  \<and> network_class e)"
  define w1 where "w1 = w\<lparr>requests := requests w @ replicate 4 (primary_url owner repo branch),
                 sleeps := sleeps w @ [3/2, 9/4, 27/8]\<rparr>"
  from a obtain e1 where e1: "download_with_progress (primary_url owner repo branch) 3 (3/2) w = (Inl e1, w1)"
    using download_exhausted_default[of w "primary_url owner repo branch"] unfolding w1_def by blast
  have fa: "fetch_archive owner repo branch w
           = download_with_progress (secondary_url owner repo branch) 3 (3/2) w1"
    by (simp add: fetch_archive_def e1)
  have raise: "download_github_folder unzip url output_dir w = (False, w2) \<and> fs w2 = fs w \<and> stdout w2 = stdout w"
    if "download_with_progress (secondary_url owner repo branch) 3 (3/2) w1 = (Inl e, w2)" for e w2
  proof -
    have "fs w2 = fs w1" "stdout w2 = stdout w1"
      using download_frame[OF that] by simp_all
    moreover have "download_github_folder unzip url output_dir w = (False, w2)"
      using a that by (simp add: download_github_folder_def fa Let_def)
    ultimately show ?thesis by (simp add: w1_def)
  qed
  have both: "download_github_folder unzip url output_dir w =
               (False, w\<lparr>requests := requests w @ replicate 4 (primary_url owner repo branch)
                                       @ replicate 4 (secondary_url owner repo branch),
                          sleeps := sleeps w @ [3/2, 9/4, 27/8, 3/2, 9/4, 27/8]\<rparr>)"
    if s: "\<forall>k<4. \<exists>e. responses w (length (requests w) + 4 + k) (secondary_url owner repo branch) = Fails e
                      \<and> network_class e"
  proof -
    have "\<forall>k<4. \<exists>e. responses w1 (length (requests w1) + k) (secondary_url owner repo branch) = Fails e
                      \<and> network_class e"
      using s by (simp add: w1_def add.assoc)
    from download_exhausted_default[OF this] obtain e2 where
      "download_with_progress (secondary_url owner repo branch) 3 (3/2) w1 =
         (Inl e2, w1\<lparr>requests := requests w1 @ replicate 4 (secondary_url owner repo branch),
                     sleeps := sleeps w1 @ [3/2, 9/4, 27/8]\<rparr>)"
      by blast
    from raise[OF this] show ?thesis by (simp add: w1_def)
  qed
  from fa raise both
  show "let w1 = w\<lparr>requests := requests w @ replicate 4 (primary_url owner repo branch),
                 sleeps := sleeps w @ [3/2, 9/4, 27/8]\<rparr>
      in fetch_archive owner repo branch w
           = download_with_progress (secondary_url owner repo branch) 3 (3/2) w1
       \<and> (\<forall>e w2. download_with_progress (secondary_url owner repo branch) 3 (3/2) w1 = (Inl e, w2) \<longrightarrow>
             download_github_folder unzip url output_dir w = (False, w2)
             \<and> fs w2 = fs w \<and> stdout w2 = stdout w)
       \<and> ((\<forall>k<4. \<exists>e. responses w (length (requests w) + 4 + k) (secondary_url owner repo branch) = Fails e
                      \<and> network_class e) \<longrightarrow>
             download_github_folder unzip url output_dir w =
               (False, w\<lparr>requests := requests w @ replicate 4 (primary_url owner repo branch)
                                       @ replicate 4 (secondary_url owner repo branch),
                          sleeps := sleeps w @ [3/2, 9/4, 27/8, 3/2, 9/4, 27/8]\<rparr>))"
    unfolding Let_def w1_def[symmetric] by blast
qed

lemma parse_example:
  "parse_github_folder_url ''https://github.com/acme/widgets/tree/v2/src/lib''
     = Inr (''acme'', ''widgets'', ''v2'', ''src/lib'')"
  by (simp add: parse_github_folder_url_def rstrip_def is_github_url_def match_owner_repo_def
      owner_char_def repo_char_def word_char_def path_parts_def urlparse_path_def splitparams_def
      strip_def lstrip_def Let_def)

theorem C2_fallback_once_witness:
  "parse_github_folder_url ''https://github.com/acme/widgets/tree/v2/src/lib''
     = Inr (''acme'', ''widgets'', ''v2'', ''src/lib'')
   \<and> download_github_folder (\<lambda>b. None) ''https://github.com/acme/widgets/tree/v2/src/lib'' None
        (example_world offline)
     = (False, (example_world offline)
          \<lparr>requests := replicate 4 ''https://codeload.github.com/acme/widgets/zip/refs/heads/v2''
                       @ replicate 4 ''https://github.com/acme/widgets/archive/v2.zip'',
            sleeps := [3/2, 9/4, 27/8, 3/2, 9/4, 27/8]\<rparr>)
   \<and> fs (snd (download_github_folder (\<lambda>b. None) ''https://github.com/acme/widgets/tree/v2/src/lib'' None
        (example_world offline))) = example_fs"
proof -
  have u: "primary_url ''acme'' ''widgets'' ''v2'' = ''https://codeload.github.com/acme/widgets/zip/refs/heads/v2''"
    "secondary_url ''acme'' ''widgets'' ''v2'' = ''https://github.com/acme/widgets/archive/v2.zip''"
    by (simp_all add: primary_url_def secondary_url_def)
  have r: "requests (example_world offline) = []" "sleeps (example_world offline) = []"
    "responses (example_world offline) = offline" "fs (example_world offline) = example_fs"
    by (simp_all add: example_world_def)
  have n: "network_class RequestException" by (simp add: network_class_def)
  have "download_github_folder (\<lambda>b. None) ''https://github.com/acme/widgets/tree/v2/src/lib'' None
        (example_world offline)
     = (False, (example_world offline)
          \<lparr>requests := replicate 4 ''https://codeload.github.com/acme/widgets/zip/refs/heads/v2''
                       @ replicate 4 ''https://github.com/acme/widgets/archive/v2.zip'',
            sleeps := [3/2, 9/4, 27/8, 3/2, 9/4, 27/8]\<rparr>)"
    using C2_fallback_once[where url = "''https://github.com/acme/widgets/tree/v2/src/lib''"
        and owner = "''acme''" and repo = "''widgets''" and branch = "''v2''" and folder_path = "''src/lib''"
        and w = "example_world offline" and unzip = "\<lambda>b. None" and output_dir = None]
      parse_example n
    unfolding u r Let_def by (simp add: offline_def)
  with parse_example show ?thesis by (simp add: r)
qed

end
